theory Spec2Isabelle
  imports Main "HOL-Library.Multiset"
begin

section \<open>Data model of the build service\<close>

text \<open>
  The build service (class \<open>BuildService\<close>) drives one Build through code generation,
  packaging, the remote Docker build and the push to GitHub, and records the progress as
  steps of the Build's Action. Identifiers are strings; a \<open>Date\<close> is its number of
  milliseconds since the epoch. Record fields carry the name of their record as a prefix
  (\<open>build_id\<close> is \<open>build.id\<close>, \<open>step_status\<close> is \<open>step.status\<close>), since field names are
  global constants.
\<close>

type_synonym ident = string
type_synonym date = int

text \<open>
  Modelled from the spec: the declaration of \<open>EnumActionStepStatus\<close> is not among the
  sources. The spec gives a Step the statuses Pending, Running, Succeeded and Failed; the
  code names the last three \<open>Running\<close>, \<open>Success\<close> and \<open>Failed\<close>.
\<close>

datatype EnumActionStepStatus = StepPending | StepRunning | StepFailed | StepSuccess

datatype EnumActionLogLevel = Error | Warning | Info | Debug

text \<open>The four values \<open>calcBuildStatus\<close> returns.\<close>

datatype EnumBuildStatus = Invalid | Running | Completed | Failed

text \<open>
  Modelled from the spec: the declaration of the container builder's \<open>EnumBuildStatus\<close>
  is not among the sources. The spec's remote build adapter answers a poll with Running,
  Completed (with images) or Failed.
\<close>

datatype ContainerBuildStatus = CbRunning | CbCompleted | CbFailed

text \<open>
  Everything the code throws. \<open>TypeError\<close> is what JavaScript raises when a property of
  \<open>null\<close> or \<open>undefined\<close> is read; \<open>ExternalError\<close> is an error raised by a
  collaborator (the generator, the container builder's transport, GitHub, the file
  system).
\<close>

datatype error =
    TypeError
  | BuildNotFoundError ident
  | StepNotFoundError string
  | StepNotCompleteError string EnumActionStepStatus
  | BuildResultNotFound ident
  | ActionNotFound
  | InvalidStepTransition
  | MethodNotSupported
  | ExternalError string

datatype log_message = LogText string | LogError error

record ActionLog =
  log_level :: EnumActionLogLevel
  log_message :: log_message
  log_meta :: "(string \<times> string list) list"

record ActionStep =
  step_name :: string
  step_message :: string
  step_status :: EnumActionStepStatus
  step_completedAt :: "date option"
  step_logs :: "ActionLog list"

record Action =
  action_steps :: "ActionStep list"

record App =
  app_id :: ident
  app_name :: string
  app_description :: string
  app_githubSyncEnabled :: bool
  app_githubRepo :: string
  app_githubBranch :: string
  app_githubToken :: string

record Commit =
  commit_id :: ident
  commit_message :: string

text \<open>
  A Build as \<open>prisma.build\<close> returns it with its action, its steps, its app and its
  commit included. The relation to the Action is required (\<open>build.actionId\<close> is a
  string and \<open>create\<close> always creates the action), so the action is always there.
\<close>

record Build =
  build_id :: ident
  build_appId :: ident
  build_actionId :: ident
  build_version :: string
  build_message :: string
  build_createdAt :: date
  build_images :: "string list"
  build_containerStatusQuery :: "string option"
  build_containerStatusUpdatedAt :: "date option"
  build_action :: Action
  build_app :: App
  build_commit :: Commit

record Entity =
  entity_id :: ident
  entity_name :: string
  entity_createdAt :: date

record Module =
  module_path :: string
  module_code :: string

text \<open>The step names and log lines the service exports.\<close>

definition GENERATE_STEP_NAME :: string where
  "GENERATE_STEP_NAME = ''GENERATE_APPLICATION''"

definition GENERATE_STEP_MESSAGE :: string where
  "GENERATE_STEP_MESSAGE = ''Generating Application''"

definition BUILD_DOCKER_IMAGE_STEP_NAME :: string where
  "BUILD_DOCKER_IMAGE_STEP_NAME = ''BUILD_DOCKER''"

definition BUILD_DOCKER_IMAGE_STEP_MESSAGE :: string where
  "BUILD_DOCKER_IMAGE_STEP_MESSAGE = ''Building Docker image''"

definition BUILD_DOCKER_IMAGE_STEP_FINISH_LOG :: string where
  "BUILD_DOCKER_IMAGE_STEP_FINISH_LOG = ''Built Docker image successfully''"

definition BUILD_DOCKER_IMAGE_STEP_FAILED_LOG :: string where
  "BUILD_DOCKER_IMAGE_STEP_FAILED_LOG = ''Build Docker failed''"

definition BUILD_DOCKER_IMAGE_STEP_RUNNING_LOG :: string where
  "BUILD_DOCKER_IMAGE_STEP_RUNNING_LOG = ''Waiting for Docker image...''"

definition BUILD_DOCKER_IMAGE_STEP_START_LOG :: string where
  "BUILD_DOCKER_IMAGE_STEP_START_LOG =
     ''Starting to build Docker image. It should take a few minutes.''"

definition PUSH_TO_GITHUB_STEP_NAME :: string where
  "PUSH_TO_GITHUB_STEP_NAME = ''PUSH_TO_GITHUB''"

definition PUSH_TO_GITHUB_STEP_MESSAGE :: string where
  "PUSH_TO_GITHUB_STEP_MESSAGE = ''Push changes to GitHub''"

definition PUSH_TO_GITHUB_STEP_START_LOG :: string where
  "PUSH_TO_GITHUB_STEP_START_LOG = ''Starting to push changes to GitHub.''"

definition PUSH_TO_GITHUB_STEP_FINISH_LOG :: string where
  "PUSH_TO_GITHUB_STEP_FINISH_LOG = ''Successfully pushed changes to GitHub''"

definition PUSH_TO_GITHUB_STEP_FAILED_LOG :: string where
  "PUSH_TO_GITHUB_STEP_FAILED_LOG = ''Push changes to GitHub failed''"

definition ACTION_ZIP_LOG :: string where
  "ACTION_ZIP_LOG = ''Creating ZIP file''"

definition ACTION_JOB_DONE_LOG :: string where
  "ACTION_JOB_DONE_LOG = ''Build job done''"

definition CONTAINER_STATUS_UPDATE_INTERVAL_SEC :: int where
  "CONTAINER_STATUS_UPDATE_INTERVAL_SEC = 10"

subsection \<open>The initial step\<close>

text \<open>
  \<open>createInitialStepData(version, message)\<close>: the step every Build is created with. The
  third argument is the value of \<open>new Date()\<close> at the call.
\<close>

definition createInitialStepData :: "string \<Rightarrow> string \<Rightarrow> date \<Rightarrow> ActionStep" where
  "createInitialStepData version message now =
     \<lparr> step_name = ''ADD_TO_QUEUE'',
       step_message = ''Adding task to queue'',
       step_status = StepSuccess,
       step_completedAt = Some now,
       step_logs =
         [ \<lparr> log_level = Info, log_message = LogText ''create build generation task'',
             log_meta = [] \<rparr>,
           \<lparr> log_level = Info, log_message = LogText (''Build Version: '' @ version),
             log_meta = [] \<rparr>,
           \<lparr> log_level = Info, log_message = LogText (''Build message: '' @ message),
             log_meta = [] \<rparr> ] \<rparr>"

subsection \<open>The store\<close>

text \<open>
  The state the service works on: the \<open>build\<close> table of the database (each row with its
  action and steps), the disk of the storage service, and the calls made to the
  collaborators that act on the outside world, in the order they were made.
\<close>

datatype call =
    CreateDataService ident "ident list"
  | DiskPut string
  | CreatePullRequest ident
  | ReportSyncMessage ident log_message
  | ContainerBuild ident
  | GetStatus ident
  | AutoDeployToSandbox ident

record World =
  builds :: "Build list"
  disk :: "string \<rightharpoonup> string"
  calls :: "call list"

text \<open>\<open>prisma.build.findUnique({ where: { id } })\<close>: the row with the id, or \<open>null\<close>.\<close>

definition findUnique :: "World \<Rightarrow> ident \<Rightarrow> Build option" where
  "findUnique w buildId = find (\<lambda>b. build_id b = buildId) (builds w)"

definition findOne :: "World \<Rightarrow> ident \<Rightarrow> Build option" where
  "findOne w buildId = findUnique w buildId"

subsection \<open>The derived status of a Build\<close>

text \<open>
  \<open>calcBuildStatus(buildId)\<close>. The lookup's result is dereferenced without a check, so
  an id that matches no row raises a \<open>TypeError\<close>.
\<close>

definition calcBuildStatus :: "World \<Rightarrow> ident \<Rightarrow> error + EnumBuildStatus" where
  "calcBuildStatus w buildId =
     (case findUnique w buildId of
        None \<Rightarrow> Inl TypeError
      | Some build \<Rightarrow>
          (let steps = action_steps (build_action build) in
           if length steps = 0 then Inr Invalid
           else if list_all (\<lambda>step. step_status step = StepSuccess) steps then Inr Completed
           else if list_ex (\<lambda>step. step_status step = StepFailed) steps then Inr Failed
           else Inr Running))"

subsection \<open>The collaborators\<close>

text \<open>What the container builder answers to \<open>build\<close> and \<open>getStatus\<close>.\<close>

record BuildResult =
  result_status :: ContainerBuildStatus
  result_images :: "string list"
  result_statusQuery :: "string option"

text \<open>
  The collaborators of the service whose code is outside the repository's sources, as
  the answers they give: the clock, the configuration, the entity service's query (in the
  order the query yields the rows), the code generator, the archive writers, the path
  helpers of \<open>./storage\<close>, the disk's \<open>getUrl\<close>, \<open>join\<close> of Node's \<open>path\<close>, the local
  git mirror that the \<open>AMP_PROJECTS_PATH\<close> block of \<open>generate\<close> writes (\<open>None\<close> when the
  variable is unset or the block runs through, the error it throws otherwise), GitHub,
  the container builder (the \<open>url\<close> it is given is \<open>None\<close> when the caller holds
  \<open>undefined\<close>), the deployment service's \<open>canDeploy\<close>, the tables of the applications
  and of the commits, and the ids the database draws for a new build and its action.
  \<open>env_leavesStepRunning\<close> belongs to the action service: the names of the steps that
  \<open>run\<close> leaves Running when their work returns (see \<open>run\<close> below).
\<close>

record Env =
  env_now :: date
  env_host :: string
  env_getEntitiesByVersions :: "ident \<Rightarrow> Entity list"
  env_createDataService :: "Build \<Rightarrow> Entity list \<Rightarrow> error + Module list"
  env_createZipFileFromModules :: "Module list \<Rightarrow> string"
  env_createTarGzFileFromModules :: "Module list \<Rightarrow> string"
  env_getBuildZipFilePath :: "ident \<Rightarrow> string"
  env_getBuildTarGzFilePath :: "ident \<Rightarrow> string"
  env_getUrl :: "string \<Rightarrow> error + string"
  env_localDiskRoot :: string
  env_pathJoin :: "string \<Rightarrow> string \<Rightarrow> string"
  env_projectsMirror :: "error option"
  env_createPullRequest :: "Build \<Rightarrow> Module list \<Rightarrow> error + string"
  env_createImageId :: "string \<Rightarrow> string"
  env_containerBuild :: "string list \<Rightarrow> string list \<Rightarrow> string option \<Rightarrow> error + BuildResult"
  env_getStatus :: "string option \<Rightarrow> error + BuildResult"
  env_canDeploy :: bool
  env_app :: "ident \<Rightarrow> App option"
  env_commit :: "ident \<Rightarrow> Commit option"
  env_newBuildId :: ident
  env_newActionId :: ident
  env_leavesStepRunning :: "string \<Rightarrow> bool"

subsection \<open>Entities in a fixed order\<close>

text \<open>
  lodash's \<open>orderBy(collection, iteratee)\<close> sorts ascending by the iteratee's value and
  is stable: elements with equal values keep the order they came in.
\<close>

definition orderBy :: "'a list \<Rightarrow> ('a \<Rightarrow> 'k::linorder) \<Rightarrow> 'a list" where
  "orderBy collection iteratee = sort_key iteratee collection"

definition getOrderedEntities :: "Env \<Rightarrow> ident \<Rightarrow> Entity list" where
  "getOrderedEntities env buildId =
     (let entities = env_getEntitiesByVersions env buildId in
      orderBy entities (\<lambda>entity. entity_createdAt entity))"

subsection \<open>Download\<close>

text \<open>
  \<open>getGenerateCodeStepStatus(buildId)\<close>: the first of the Build's steps named
  \<open>GENERATE_APPLICATION\<close>, \<open>undefined\<close> when there is none. The chained query answers
  \<open>null\<close> for an id without a row, and destructuring \<open>null\<close> raises a \<open>TypeError\<close>.
\<close>

definition getGenerateCodeStepStatus :: "World \<Rightarrow> ident \<Rightarrow> error + ActionStep option" where
  "getGenerateCodeStepStatus w buildId =
     (case findUnique w buildId of
        None \<Rightarrow> Inl TypeError
      | Some build \<Rightarrow>
          Inr (find (\<lambda>step. step_name step = GENERATE_STEP_NAME)
                 (action_steps (build_action build))))"

text \<open>
  \<open>download(args)\<close>, with \<open>id = args.where.id\<close>. The stream it returns is the content
  of the disk's object.
\<close>

definition download :: "Env \<Rightarrow> World \<Rightarrow> ident \<Rightarrow> error + string" where
  "download env w buildId =
     (case findOne w buildId of
        None \<Rightarrow> Inl (BuildNotFoundError buildId)
      | Some build \<Rightarrow>
          (case getGenerateCodeStepStatus w buildId of
             Inl e \<Rightarrow> Inl e
           | Inr None \<Rightarrow> Inl (StepNotFoundError GENERATE_STEP_NAME)
           | Inr (Some generatedCodeStep) \<Rightarrow>
               if step_status generatedCodeStep \<noteq> StepSuccess
               then Inl (StepNotCompleteError GENERATE_STEP_NAME
                           (step_status generatedCodeStep))
               else
                 (let filePath = env_getBuildZipFilePath env buildId in
                  case disk w filePath of
                    None \<Rightarrow> Inl (BuildResultNotFound (build_id build))
                  | Some content \<Rightarrow> Inr content)))"

subsection \<open>The action service\<close>

text \<open>
  An operation of the service changes the store and either returns a value or throws;
  what it did to the store before it threw stays done. So an operation answers with the
  pair of its outcome and the store it leaves.

  A step that the code holds as an object (\<open>step\<close>, \<open>stepBuildDocker\<close>) is passed to the
  action service, which finds its row by the object's id. Steps are only ever appended
  to an Action, so the model names a step by the id of its Action and its position among
  the Action's steps.
\<close>

type_synonym step_ref = "ident \<times> nat"

definition lookupStep :: "World \<Rightarrow> step_ref \<Rightarrow> ActionStep option" where
  "lookupStep w ref =
     (case find (\<lambda>b. build_actionId b = fst ref) (builds w) of
        None \<Rightarrow> None
      | Some b \<Rightarrow>
          if snd ref < length (action_steps (build_action b))
          then Some (action_steps (build_action b) ! snd ref) else None)"

definition updateStepOf :: "step_ref \<Rightarrow> (ActionStep \<Rightarrow> ActionStep) \<Rightarrow> Build \<Rightarrow> Build" where
  "updateStepOf ref f b =
     (if build_actionId b = fst ref \<and> snd ref < length (action_steps (build_action b))
      then b \<lparr> build_action := \<lparr> action_steps =
             (action_steps (build_action b))
               [snd ref := f (action_steps (build_action b) ! snd ref)] \<rparr> \<rparr>
      else b)"

definition updateStep :: "step_ref \<Rightarrow> (ActionStep \<Rightarrow> ActionStep) \<Rightarrow> World \<Rightarrow> World" where
  "updateStep ref f w = w \<lparr> builds := map (updateStepOf ref f) (builds w) \<rparr>"

definition appendStepOf :: "ident \<Rightarrow> ActionStep \<Rightarrow> Build \<Rightarrow> Build" where
  "appendStepOf actionId step b =
     (if build_actionId b = actionId
      then b \<lparr> build_action := \<lparr> action_steps = action_steps (build_action b) @ [step] \<rparr> \<rparr>
      else b)"

text \<open>
  Modelled from the spec: \<open>ActionService\<close> (\<open>../action/action.service\<close>) is not among the
  sources. \<open>beginStep(action, name, message)\<close> creates and persists a Step in Running
  state and fails with \<open>ActionNotFound\<close> if the action does not exist.
\<close>

definition beginStep :: "ident \<Rightarrow> string \<Rightarrow> string \<Rightarrow> World \<Rightarrow> (error + step_ref) \<times> World" where
  "beginStep actionId name message w =
     (case find (\<lambda>b. build_actionId b = actionId) (builds w) of
        None \<Rightarrow> (Inl ActionNotFound, w)
      | Some b \<Rightarrow>
          (Inr (actionId, length (action_steps (build_action b))),
           w \<lparr> builds :=
             map (appendStepOf actionId
                    \<lparr> step_name = name, step_message = message,
                      step_status = StepRunning, step_completedAt = None,
                      step_logs = [] \<rparr>)
               (builds w) \<rparr>))"

text \<open>
  Modelled from the spec: \<open>log(step, level, message, metadata)\<close> and
  \<open>logInfo(step, message, metadata?)\<close> append a Log Line to the step and never fail the
  enclosing operation.
\<close>

definition log :: "step_ref \<Rightarrow> EnumActionLogLevel \<Rightarrow> log_message \<Rightarrow>
    (string \<times> string list) list \<Rightarrow> World \<Rightarrow> World" where
  "log step level message meta w =
     updateStep step
       (\<lambda>s. s \<lparr> step_logs := step_logs s @
               [\<lparr> log_level = level, log_message = message, log_meta = meta \<rparr>] \<rparr>) w"

definition logInfo :: "step_ref \<Rightarrow> log_message \<Rightarrow> (string \<times> string list) list \<Rightarrow> World \<Rightarrow> World" where
  "logInfo step message meta w = log step Info message meta w"

text \<open>
  Modelled from the spec: \<open>complete(step, status)\<close> moves a step from Running to a
  terminal status exactly once; a second call on the same step fails with
  \<open>InvalidStepTransition\<close>. The second argument of the model is \<open>new Date()\<close>.
\<close>

definition complete :: "step_ref \<Rightarrow> EnumActionStepStatus \<Rightarrow> date \<Rightarrow> World \<Rightarrow> (error + unit) \<times> World" where
  "complete step status now w =
     (case lookupStep w step of
        None \<Rightarrow> (Inl InvalidStepTransition, w)
      | Some s \<Rightarrow>
          if step_status s = StepRunning
          then (Inr (),
                updateStep step
                  (\<lambda>s. s \<lparr> step_status := status, step_completedAt := Some now \<rparr>) w)
          else (Inl InvalidStepTransition, w))"

text \<open>
  Modelled from the spec: \<open>run(actionId, stepName, stepMessage, work, isFinalStep)\<close>
  begins the step and invokes \<open>work(step)\<close>. On normal return it marks the step
  Succeeded only if the work has not set a terminal status itself; some stages (the spec
  names the remote build) leave their step Running for a later completion, and as the
  spec does not say how \<open>run\<close> tells them, they are the parameter
  \<open>env_leavesStepRunning\<close>. On a thrown error it marks the step Failed; with
  \<open>isFinalStep\<close> true the error is then signalled again to the caller, with
  \<open>isFinalStep\<close> false (the default) it is swallowed, and the call returns without a
  value (\<open>None\<close>, the \<open>undefined\<close> of JavaScript).
\<close>

definition run :: "Env \<Rightarrow> ident \<Rightarrow> string \<Rightarrow> string \<Rightarrow>
    (step_ref \<Rightarrow> World \<Rightarrow> (error + 'a) \<times> World) \<Rightarrow> bool \<Rightarrow> World \<Rightarrow>
    (error + 'a option) \<times> World" where
  "run env actionId stepName message work isFinalStep w =
     (case beginStep actionId stepName message w of
        (Inl e, w1) \<Rightarrow> (Inl e, w1)
      | (Inr step, w1) \<Rightarrow>
          (case work step w1 of
             (Inr result, w2) \<Rightarrow>
               if map_option step_status (lookupStep w2 step) = Some StepRunning \<and>
                  \<not> env_leavesStepRunning env stepName
               then (case complete step StepSuccess (env_now env) w2 of
                       (Inl e, w3) \<Rightarrow> (Inl e, w3)
                     | (Inr _, w3) \<Rightarrow> (Inr (Some result), w3))
               else (Inr (Some result), w2)
           | (Inl error, w2) \<Rightarrow>
               (case complete step StepFailed (env_now env) w2 of
                  (Inl e, w3) \<Rightarrow> (Inl e, w3)
                | (Inr _, w3) \<Rightarrow>
                    if isFinalStep then (Inl error, w3) else (Inr None, w3))))"

subsection \<open>The result of the container builder\<close>

text \<open>
  \<open>prisma.build.update({ where: { id }, data })\<close>: Prisma throws when no row has the id.
\<close>

definition updateBuild :: "ident \<Rightarrow> (Build \<Rightarrow> Build) \<Rightarrow> World \<Rightarrow> (error + unit) \<times> World" where
  "updateBuild buildId f w =
     (case findUnique w buildId of
        None \<Rightarrow> (Inl (ExternalError ''Record to update not found''), w)
      | Some _ \<Rightarrow>
          (Inr (), w \<lparr> builds := map (\<lambda>b. if build_id b = buildId then f b else b) (builds w) \<rparr>))"

definition called :: "call \<Rightarrow> World \<Rightarrow> World" where
  "called c w = w \<lparr> calls := calls w @ [c] \<rparr>"

text \<open>
  \<open>handleContainerBuilderResult(build, step, result)\<close>. In the last case the data of
  the update are \<open>containerStatusQuery: result.statusQuery\<close> and the time of the call; a
  result without a status query has \<open>undefined\<close> there, and Prisma leaves a column
  whose value in \<open>data\<close> is \<open>undefined\<close> as it is.
\<close>

definition handleContainerBuilderResult ::
    "Env \<Rightarrow> Build \<Rightarrow> step_ref \<Rightarrow> BuildResult \<Rightarrow> World \<Rightarrow> (error + unit) \<times> World" where
  "handleContainerBuilderResult env build step result w =
     (case result_status result of
        CbCompleted \<Rightarrow>
          (let w1 = logInfo step (LogText BUILD_DOCKER_IMAGE_STEP_FINISH_LOG)
                      [(''images'', result_images result)] w in
           case complete step StepSuccess (env_now env) w1 of
             (Inl e, w2) \<Rightarrow> (Inl e, w2)
           | (Inr _, w2) \<Rightarrow>
               (case updateBuild (build_id build)
                       (\<lambda>b. b \<lparr> build_images := result_images result \<rparr>) w2 of
                  (Inl e, w3) \<Rightarrow> (Inl e, w3)
                | (Inr _, w3) \<Rightarrow>
                    if env_canDeploy env
                    then (Inr (), called (AutoDeployToSandbox (build_id build)) w3)
                    else (Inr (), w3)))
      | CbFailed \<Rightarrow>
          (let w1 = logInfo step (LogText BUILD_DOCKER_IMAGE_STEP_FAILED_LOG) [] w in
           complete step StepFailed (env_now env) w1)
      | _ \<Rightarrow>
          (let w1 = logInfo step (LogText BUILD_DOCKER_IMAGE_STEP_RUNNING_LOG) [] w in
           updateBuild (build_id build)
             (\<lambda>b. b \<lparr> build_containerStatusQuery :=
                         (case result_statusQuery result of
                            None \<Rightarrow> build_containerStatusQuery b
                          | Some statusQuery \<Rightarrow> Some statusQuery),
                       build_containerStatusUpdatedAt := Some (env_now env) \<rparr>) w1))"

subsection \<open>Reconciliation of the running Docker builds\<close>

text \<open>
  The query of \<open>updateRunningBuildsStatus\<close>: the builds last polled before the threshold
  (a row that was never polled has no time and is not matched) that have a Running step
  named \<open>BUILD_DOCKER\<close>, ordered by creation time, ascending. Rows created at the same
  time come in the order of the table.
\<close>

definition lastUpdateThreshold :: "Env \<Rightarrow> date" where
  "lastUpdateThreshold env = env_now env - CONTAINER_STATUS_UPDATE_INTERVAL_SEC * 1000"

definition hasRunningBuildDockerStep :: "Build \<Rightarrow> bool" where
  "hasRunningBuildDockerStep b =
     list_ex (\<lambda>step. step_status step = StepRunning \<and>
                      step_name step = BUILD_DOCKER_IMAGE_STEP_NAME)
       (action_steps (build_action b))"

definition findRunningBuilds :: "Env \<Rightarrow> World \<Rightarrow> Build list" where
  "findRunningBuilds env w =
     sort_key build_createdAt
       (filter (\<lambda>b. (case build_containerStatusUpdatedAt b of
                        None \<Rightarrow> False
                      | Some t \<Rightarrow> t < lastUpdateThreshold env) \<and>
                     hasRunningBuildDockerStep b)
          (builds w))"

text \<open>
  lodash's \<open>groupBy(collection, iteratee)\<close>: an object with one property for each key,
  created when the key first occurs, that holds the elements of the key in their order.
  The model lists the properties in the order of their creation.
\<close>

fun groupBy_push :: "'k \<Rightarrow> 'a \<Rightarrow> ('k \<times> 'a list) list \<Rightarrow> ('k \<times> 'a list) list" where
  "groupBy_push k x [] = [(k, [x])]"
| "groupBy_push k x ((k', g) # groups) =
     (if k' = k then (k', g @ [x]) # groups else (k', g) # groupBy_push k x groups)"

definition groupBy :: "'a list \<Rightarrow> ('a \<Rightarrow> 'k) \<Rightarrow> ('k \<times> 'a list) list" where
  "groupBy collection iteratee =
     foldl (\<lambda>groups x. groupBy_push (iteratee x) x groups) [] collection"

text \<open>
  \<open>Object.entries(object)\<close>: the properties whose key is an array index (the decimal
  numeral, without a leading zero, of a number below 4294967295) come first, in the
  ascending order of the numbers, and then the other properties in the order of their
  creation.
\<close>

definition isDigit :: "char \<Rightarrow> bool" where
  "isDigit c \<longleftrightarrow> c \<in> set ''0123456789''"

definition decimalValue :: "string \<Rightarrow> nat" where
  "decimalValue key = foldl (\<lambda>n c. 10 * n + (of_char c - 48)) 0 key"

definition arrayIndex :: "string \<Rightarrow> nat option" where
  "arrayIndex key =
     (if key \<noteq> [] \<and> list_all isDigit key \<and> (key = ''0'' \<or> hd key \<noteq> CHR ''0'') \<and>
         decimalValue key < 4294967295
      then Some (decimalValue key) else None)"

definition objectEntries :: "(string \<times> 'v) list \<Rightarrow> (string \<times> 'v) list" where
  "objectEntries properties =
     sort_key (\<lambda>(key, v). case arrayIndex key of None \<Rightarrow> 0 | Some n \<Rightarrow> n)
       (filter (\<lambda>(key, v). arrayIndex key \<noteq> None) properties) @
     filter (\<lambda>(key, v). arrayIndex key = None) properties"

text \<open>\<open>Array.prototype.findIndex\<close>, with \<open>None\<close> for \<open>-1\<close>.\<close>

fun findIndex :: "('a \<Rightarrow> bool) \<Rightarrow> 'a list \<Rightarrow> nat option" where
  "findIndex P [] = None"
| "findIndex P (x # xs) = (if P x then Some 0 else map_option Suc (findIndex P xs))"

text \<open>
  The body of the loop over the builds of one application: the step named
  \<open>BUILD_DOCKER\<close> is looked up among the steps the query returned, the container builder
  is asked for the status, and the result is handled; whatever the \<open>try\<close> block throws is
  logged to the step, and the step is completed as Failed. Without such a step the code
  would hand \<open>undefined\<close> to the action service.
\<close>

definition pollBuild :: "Env \<Rightarrow> Build \<Rightarrow> World \<Rightarrow> (error + unit) \<times> World" where
  "pollBuild env build w =
     (case findIndex (\<lambda>step. step_name step = BUILD_DOCKER_IMAGE_STEP_NAME)
             (action_steps (build_action build)) of
        None \<Rightarrow> (Inl TypeError, called (GetStatus (build_id build)) w)
      | Some i \<Rightarrow>
          (let stepBuildDocker = (build_actionId build, i);
               w1 = called (GetStatus (build_id build)) w;
               tried =
                 (case env_getStatus env (build_containerStatusQuery build) of
                    Inl error \<Rightarrow> (Inl error, w1)
                  | Inr result \<Rightarrow>
                      handleContainerBuilderResult env build stepBuildDocker result w1)
           in case tried of
                (Inr _, w2) \<Rightarrow> (Inr (), w2)
              | (Inl error, w2) \<Rightarrow>
                  complete stepBuildDocker StepFailed (env_now env)
                    (logInfo stepBuildDocker (LogError error) [] w2)))"

text \<open>The \<open>for\<close> loop over the builds of one application: an error ends it.\<close>

fun pollGroup :: "Env \<Rightarrow> Build list \<Rightarrow> World \<Rightarrow> (error + unit) \<times> World" where
  "pollGroup env [] w = (Inr (), w)"
| "pollGroup env (build # groupBuilds) w =
     (case pollBuild env build w of
        (Inl e, w') \<Rightarrow> (Inl e, w')
      | (Inr _, w') \<Rightarrow> pollGroup env groupBuilds w')"

text \<open>
  \<open>Promise.all\<close> over the groups, with the groups run one after the other (the other
  orders in time are the subject of \<open>sweepRun\<close> below). A group that throws makes the
  whole call throw, and the loops of the other groups still run to their end.
\<close>

fun pollGroups :: "Env \<Rightarrow> ('k \<times> Build list) list \<Rightarrow> World \<Rightarrow> (error + unit) \<times> World" where
  "pollGroups env [] w = (Inr (), w)"
| "pollGroups env ((appId, groupBuilds) # groups) w =
     (case pollGroup env groupBuilds w of
        (r, w') \<Rightarrow>
          (case pollGroups env groups w' of
             (rs, w'') \<Rightarrow> ((case r of Inl e \<Rightarrow> Inl e | Inr _ \<Rightarrow> rs), w'')))"

definition updateRunningBuildsStatus :: "Env \<Rightarrow> World \<Rightarrow> (error + unit) \<times> World" where
  "updateRunningBuildsStatus env w =
     (let builds = findRunningBuilds env w;
          groups = objectEntries (groupBy builds build_appId)
      in pollGroups env groups w)"

subsection \<open>The order in time of the polls of a sweep\<close>

text \<open>
  Each group is handled by an asynchronous function of its own, and \<open>Promise.all\<close>
  waits for all of them: a function runs until it awaits, and then any of the functions
  whose awaited answer has come goes on. An iteration of the loop calls \<open>getStatus\<close>
  and awaits the answer; this is where the functions of the other groups get their turn.
  So an iteration is cut in two at this \<open>await\<close>: \<open>pollStart\<close> is the part up to the
  call of \<open>getStatus\<close>, and \<open>pollFinish\<close> is the part from the answer to the end of the
  iteration, which handles the result. The two parts one after the other are
  \<open>pollBuild\<close> (\<open>pollBuild_split\<close> below). The further \<open>await\<close>s of the second part
  wait for the database, and the second part is taken as one step.
\<close>

definition pollStart :: "Env \<Rightarrow> Build \<Rightarrow> World \<Rightarrow> World" where
  "pollStart env build w = called (GetStatus (build_id build)) w"

definition pollFinish :: "Env \<Rightarrow> Build \<Rightarrow> World \<Rightarrow> (error + unit) \<times> World" where
  "pollFinish env build w1 =
     (case findIndex (\<lambda>step. step_name step = BUILD_DOCKER_IMAGE_STEP_NAME)
             (action_steps (build_action build)) of
        None \<Rightarrow> (Inl TypeError, w1)
      | Some i \<Rightarrow>
          (let stepBuildDocker = (build_actionId build, i);
               tried =
                 (case env_getStatus env (build_containerStatusQuery build) of
                    Inl error \<Rightarrow> (Inl error, w1)
                  | Inr result \<Rightarrow>
                      handleContainerBuilderResult env build stepBuildDocker result w1)
           in case tried of
                (Inr _, w2) \<Rightarrow> (Inr (), w2)
              | (Inl error, w2) \<Rightarrow>
                  complete stepBuildDocker StepFailed (env_now env)
                    (logInfo stepBuildDocker (LogError error) [] w2)))"

text \<open>
  The state of the asynchronous function of one group: the build whose answer it awaits,
  if it awaits one, and the builds the loop has still to come to. The functions that
  \<open>Promise.all\<close> is given by a sweep are \<open>sweepTasks\<close>.
\<close>

type_synonym task = "Build option \<times> Build list"

definition sweepTasks :: "Env \<Rightarrow> World \<Rightarrow> task list" where
  "sweepTasks env w =
     map (\<lambda>(appId, groupBuilds). (None, groupBuilds))
       (objectEntries (groupBy (findRunningBuilds env w) build_appId))"

text \<open>
  One step of a sweep. A function that awaits nothing and has a build to come to begins
  the iteration for this build (\<open>PollStarted\<close>); a function that awaits the answer for a
  build gets it and runs the rest of the iteration (\<open>PollFinished\<close>), and when this
  throws, the loop of the function is over. \<open>sweepRun\<close> is a sequence of such steps,
  with the events in their order.
\<close>

datatype poll_event = PollStarted Build | PollFinished Build

fun event_build :: "poll_event \<Rightarrow> Build" where
  "event_build (PollStarted b) = b"
| "event_build (PollFinished b) = b"

fun is_started :: "poll_event \<Rightarrow> bool" where
  "is_started (PollStarted b) = True"
| "is_started (PollFinished b) = False"

inductive sweepStep :: "Env \<Rightarrow> task list \<times> World \<Rightarrow> poll_event \<Rightarrow> task list \<times> World \<Rightarrow> bool"
  for env :: Env where
  start: "i < length tasks \<Longrightarrow> tasks ! i = (None, build # groupBuilds) \<Longrightarrow>
     sweepStep env (tasks, w) (PollStarted build)
       (tasks[i := (Some build, groupBuilds)], pollStart env build w)"
| finish: "i < length tasks \<Longrightarrow> tasks ! i = (Some build, groupBuilds) \<Longrightarrow>
     pollFinish env build w = (r, w') \<Longrightarrow>
     sweepStep env (tasks, w) (PollFinished build)
       (tasks[i := (None, case r of Inl e \<Rightarrow> [] | Inr u \<Rightarrow> groupBuilds)], w')"

inductive sweepRun :: "Env \<Rightarrow> task list \<times> World \<Rightarrow> poll_event list \<Rightarrow> task list \<times> World \<Rightarrow> bool"
  for env :: Env where
  stay: "sweepRun env c [] c"
| step: "sweepStep env c e c' \<Longrightarrow> sweepRun env c' es c'' \<Longrightarrow> sweepRun env c (e # es) c''"

subsection \<open>Creating a Build\<close>

text \<open>
  \<open>s.slice(start)\<close> of JavaScript: a negative start counts from the end of the string,
  and the start is clamped to the string.
\<close>

definition slice :: "string \<Rightarrow> int \<Rightarrow> string" where
  "slice s start =
     (let len = int (length s);
          from = (if start < 0 then max (len + start) 0 else min start len)
      in drop (nat from) s)"

text \<open>
  \<open>save(build, modules)\<close> puts the zip archive and the tarball on the disk and returns
  the tarball's URL; \<open>getFileURL\<close> falls back to the path under the local disk's root when
  the disk does not support URLs, and throws any other error again.
\<close>

definition getFileURL :: "Env \<Rightarrow> string \<Rightarrow> error + string" where
  "getFileURL env filePath =
     (case env_getUrl env filePath of
        Inr url \<Rightarrow> Inr url
      | Inl MethodNotSupported \<Rightarrow> Inr (env_pathJoin env (env_localDiskRoot env) filePath)
      | Inl error \<Rightarrow> Inl error)"

definition diskPut :: "string \<Rightarrow> string \<Rightarrow> World \<Rightarrow> World" where
  "diskPut filePath content w = called (DiskPut filePath) (w \<lparr> disk := (disk w)(filePath \<mapsto> content) \<rparr>)"

definition save :: "Env \<Rightarrow> Build \<Rightarrow> Module list \<Rightarrow> World \<Rightarrow> (error + string) \<times> World" where
  "save env build modules w =
     (let zipFilePath = env_getBuildZipFilePath env (build_id build);
          tarFilePath = env_getBuildTarGzFilePath env (build_id build);
          w1 = diskPut zipFilePath (env_createZipFileFromModules env modules) w;
          w2 = diskPut tarFilePath (env_createTarGzFileFromModules env modules) w1
      in (getFileURL env tarFilePath, w2))"

text \<open>
  \<open>saveToGitHub(build, modules)\<close>: when the application has the GitHub sync enabled, a
  step \<open>PUSH_TO_GITHUB\<close> is run that creates the pull request; an error of GitHub is
  caught, logged and reported to the application, and the step is completed as Failed.
  \<open>pushToGitHubStep\<close> is the function handed to \<open>run\<close>.
\<close>

definition pushToGitHubStep ::
    "Env \<Rightarrow> Build \<Rightarrow> Module list \<Rightarrow> step_ref \<Rightarrow> World \<Rightarrow> (error + unit) \<times> World" where
  "pushToGitHubStep env build modules step w0 =
     (let w1 = logInfo step (LogText PUSH_TO_GITHUB_STEP_START_LOG) [] w0;
          w2 = called (CreatePullRequest (build_id build)) w1;
          tried =
            (case env_createPullRequest env build modules of
               Inl error \<Rightarrow> (Inl error, w2)
             | Inr prUrl \<Rightarrow>
                 (let w3 = called (ReportSyncMessage (build_appId build)
                              (LogText ''Sync Completed Successfully'')) w2;
                      w4 = logInfo step (LogText prUrl) [(''githubUrl'', [prUrl])] w3;
                      w5 = logInfo step (LogText PUSH_TO_GITHUB_STEP_FINISH_LOG) [] w4
                  in complete step StepSuccess (env_now env) w5))
      in case tried of
           (Inr _, w6) \<Rightarrow> (Inr (), w6)
         | (Inl error, w6) \<Rightarrow>
             (let w7 = logInfo step (LogText PUSH_TO_GITHUB_STEP_FAILED_LOG) [] w6;
                  w8 = logInfo step (LogError error) [] w7
              in case complete step StepFailed (env_now env) w8 of
                   (Inl e, w9) \<Rightarrow> (Inl e, w9)
                 | (Inr _, w9) \<Rightarrow>
                     (Inr (), called (ReportSyncMessage (build_appId build)
                                (LogError error)) w9)))"

definition saveToGitHub ::
    "Env \<Rightarrow> Build \<Rightarrow> Module list \<Rightarrow> World \<Rightarrow> (error + unit option) \<times> World" where
  "saveToGitHub env build modules w =
     (if app_githubSyncEnabled (build_app build) then
        run env (build_actionId build) PUSH_TO_GITHUB_STEP_NAME PUSH_TO_GITHUB_STEP_MESSAGE
          (pushToGitHubStep env build modules) True w
      else (Inr None, w))"

text \<open>
  \<open>generate(build)\<close> runs the step \<open>GENERATE_APPLICATION\<close>: the entities in their order
  go to the code generator, the modules it returns are written to the local git mirror
  (when one is configured), saved to the disk and pushed to GitHub, and the tarball's URL
  is returned. The application is read for its name, which throws when there is none.
  The lines the generator logs are not modelled. \<open>generateStep\<close> is the function
  handed to \<open>run\<close>, with no fifth argument; what \<open>generate\<close> returns is what \<open>run\<close>
  returns, the URL or no value.
\<close>

definition generateStep :: "Env \<Rightarrow> Build \<Rightarrow> step_ref \<Rightarrow> World \<Rightarrow> (error + string) \<times> World" where
  "generateStep env build step w0 =
     (let entities = getOrderedEntities env (build_id build) in
      case env_app env (build_appId build) of
        None \<Rightarrow> (Inl TypeError, w0)
      | Some app \<Rightarrow>
          (let w1 = called (CreateDataService (build_id build)
                              (map entity_id entities)) w0 in
           case env_createDataService env build entities of
             Inl error \<Rightarrow> (Inl error, w1)
           | Inr modules \<Rightarrow>
               (let w2 = logInfo step (LogText ACTION_ZIP_LOG) [] w1 in
                case env_projectsMirror env of
                  Some error \<Rightarrow> (Inl error, w2)
                | None \<Rightarrow>
                    (case save env build modules w2 of
                       (Inl error, w3) \<Rightarrow> (Inl error, w3)
                     | (Inr tarballURL, w3) \<Rightarrow>
                         (case saveToGitHub env build modules w3 of
                            (Inl error, w4) \<Rightarrow> (Inl error, w4)
                          | (Inr _, w4) \<Rightarrow>
                              (Inr tarballURL,
                               logInfo step (LogText ACTION_JOB_DONE_LOG) [] w4))))))"

definition generate :: "Env \<Rightarrow> Build \<Rightarrow> World \<Rightarrow> (error + string option) \<times> World" where
  "generate env build w =
     run env (build_actionId build) GENERATE_STEP_NAME GENERATE_STEP_MESSAGE
       (generateStep env build) False w"

text \<open>
  \<open>buildDockerImage(build, tarballURL)\<close> runs the step \<open>BUILD_DOCKER\<close>: the build is
  submitted to the container builder with the build's tag and the application's latest
  tag, and the first result is handled. \<open>buildDockerStep\<close> is the function handed to
  \<open>run\<close>, with \<open>true\<close> as the fifth argument. The URL is the value \<open>create\<close> has got
  from \<open>generate\<close>.
\<close>

definition buildDockerStep ::
    "Env \<Rightarrow> Build \<Rightarrow> string option \<Rightarrow> step_ref \<Rightarrow> World \<Rightarrow> (error + unit) \<times> World" where
  "buildDockerStep env build tarballURL step w0 =
     (let w1 = logInfo step (LogText BUILD_DOCKER_IMAGE_STEP_START_LOG) [] w0;
          tag = build_appId build @ '':'' @ build_id build;
          latestTag = build_appId build @ '':latest'';
          latestImageId = env_createImageId env latestTag;
          w2 = called (ContainerBuild (build_id build)) w1
      in case env_containerBuild env [tag, latestTag] [latestImageId] tarballURL of
           Inl error \<Rightarrow> (Inl error, w2)
         | Inr result \<Rightarrow> handleContainerBuilderResult env build step result w2)"

definition buildDockerImage ::
    "Env \<Rightarrow> Build \<Rightarrow> string option \<Rightarrow> World \<Rightarrow> (error + unit option) \<times> World" where
  "buildDockerImage env build tarballURL w =
     run env (build_actionId build) BUILD_DOCKER_IMAGE_STEP_NAME BUILD_DOCKER_IMAGE_STEP_MESSAGE
       (buildDockerStep env build tarballURL) True w"

record CreateBuildArgs =
  args_appId :: ident
  args_commitId :: ident
  args_message :: string

text \<open>
  \<open>prisma.build.create\<close> of \<open>create\<close>: the new row with its action and the initial step.
  The database draws the ids of the row and of its action; connecting an application or
  a commit that does not exist makes Prisma throw.
\<close>

definition createBuildRecord :: "Env \<Rightarrow> CreateBuildArgs \<Rightarrow> World \<Rightarrow> (error + Build) \<times> World" where
  "createBuildRecord env args w =
     (let appId = args_appId args;
          commitId = args_commitId args;
          version = slice commitId (int (length commitId) - 8)
      in case (env_app env appId, env_commit env commitId) of
           (Some app, Some commit) \<Rightarrow>
             (let build =
                \<lparr> build_id = env_newBuildId env, build_appId = appId,
                  build_actionId = env_newActionId env, build_version = version,
                  build_message = args_message args, build_createdAt = env_now env,
                  build_images = [], build_containerStatusQuery = None,
                  build_containerStatusUpdatedAt = None,
                  build_action = \<lparr> action_steps =
                    [createInitialStepData version (args_message args) (env_now env)] \<rparr>,
                  build_app = app, build_commit = commit \<rparr>
              in (Inr build, w \<lparr> builds := builds w @ [build] \<rparr>))
         | _ \<Rightarrow> (Inl (ExternalError ''Record to connect not found''), w))"

text \<open>
  \<open>create(args, skipPublish)\<close>: the row is created, then the generation is awaited, then
  (unless \<open>skipPublish\<close>) the submission of the Docker build with what the generation has
  returned, and then the Build is returned. The two lines written to the process logger
  are not modelled.
\<close>

definition create :: "Env \<Rightarrow> CreateBuildArgs \<Rightarrow> bool \<Rightarrow> World \<Rightarrow> (error + Build) \<times> World" where
  "create env args skipPublish w =
     (case createBuildRecord env args w of
        (Inl e, w1) \<Rightarrow> (Inl e, w1)
      | (Inr build, w1) \<Rightarrow>
          (case generate env build w1 of
             (Inl e, w2) \<Rightarrow> (Inl e, w2)
           | (Inr tarballURL, w2) \<Rightarrow>
               if \<not> skipPublish then
                 (case buildDockerImage env build tarballURL w2 of
                    (Inl e, w3) \<Rightarrow> (Inl e, w3)
                  | (Inr _, w3) \<Rightarrow> (Inr build, w3))
               else (Inr build, w2)))"

subsection \<open>Invariants of the store\<close>

text \<open>
  The ids of the builds and of their actions are keys of the database, and every stage
  adds its step once: \<open>create\<close> runs the step \<open>BUILD_DOCKER\<close> at most once for a Build.
\<close>

definition wellFormed :: "World \<Rightarrow> bool" where
  "wellFormed w \<longleftrightarrow>
     distinct (map build_id (builds w)) \<and>
     distinct (map build_actionId (builds w)) \<and>
     (\<forall>b \<in> set (builds w).
        length (filter (\<lambda>step. step_name step = BUILD_DOCKER_IMAGE_STEP_NAME)
                  (action_steps (build_action b))) \<le> 1)"

text \<open>The step named \<open>BUILD_DOCKER\<close> of a Build, as \<open>find\<close> answers it on the Build's row.\<close>

definition stepBuildDocker :: "World \<Rightarrow> ident \<Rightarrow> ActionStep option" where
  "stepBuildDocker w buildId =
     (case findUnique w buildId of
        None \<Rightarrow> None
      | Some b \<Rightarrow>
          find (\<lambda>step. step_name step = BUILD_DOCKER_IMAGE_STEP_NAME)
            (action_steps (build_action b)))"

text \<open>The builds whose status was asked from the container builder, in a list of calls.\<close>

fun polledBuilds :: "call list \<Rightarrow> ident list" where
  "polledBuilds [] = []"
| "polledBuilds (GetStatus buildId # cs) = buildId # polledBuilds cs"
| "polledBuilds (c # cs) = polledBuilds cs"

text \<open>The calls an operation has added to the calls of the store it started from.\<close>

definition newCalls :: "World \<Rightarrow> World \<Rightarrow> call list" where
  "newCalls w w' = drop (length (calls w)) (calls w')"

text \<open>
  An operation that changes nothing but rows of the builds in \<open>S\<close>, and of these neither
  the ids nor the names of the steps.
\<close>

definition rowLocal :: "Build set \<Rightarrow> (Build \<Rightarrow> Build) \<Rightarrow> bool" where
  "rowLocal S g \<longleftrightarrow>
     (\<forall>r. build_id (g r) = build_id r \<and> build_actionId (g r) = build_actionId r \<and>
          map step_name (action_steps (build_action (g r))) =
            map step_name (action_steps (build_action r))) \<and>
     (\<forall>r. (\<forall>b \<in> S. build_id r \<noteq> build_id b \<and> build_actionId r \<noteq> build_actionId b)
          \<longrightarrow> g r = r)"

definition touchesOnly :: "Build set \<Rightarrow> World \<Rightarrow> World \<Rightarrow> bool" where
  "touchesOnly S w w' \<longleftrightarrow> (\<exists>g. rowLocal S g \<and> builds w' = map g (builds w))"

text \<open>
  What a poll leaves in the step \<open>BUILD_DOCKER\<close> of a build: Failed and the logged
  error when the status could not be fetched, and otherwise the status that belongs to
  the result.
\<close>

definition pollOutcome :: "Env \<Rightarrow> Build \<Rightarrow> ActionStep \<Rightarrow> bool" where
  "pollOutcome env b s =
     (case env_getStatus env (build_containerStatusQuery b) of
        Inl error \<Rightarrow>
          step_status s = StepFailed \<and> LogError error \<in> log_message ` set (step_logs s)
      | Inr result \<Rightarrow>
          step_status s =
            (case result_status result of
               CbCompleted \<Rightarrow> StepSuccess
             | CbFailed \<Rightarrow> StepFailed
             | CbRunning \<Rightarrow> StepRunning))"

definition advancedRow :: "Env \<Rightarrow> Build \<Rightarrow> World \<Rightarrow> bool" where
  "advancedRow env b w \<longleftrightarrow>
     (\<exists>r s. findUnique w (build_id b) = Some r \<and> build_actionId r = build_actionId b \<and>
            find (\<lambda>step. step_name step = BUILD_DOCKER_IMAGE_STEP_NAME)
              (action_steps (build_action r)) = Some s \<and>
            pollOutcome env b s)"




text \<open>The names and statuses of the steps of a Build, in their order.\<close>

definition stepStatuses :: "World \<Rightarrow> ident \<Rightarrow> (string \<times> EnumActionStepStatus) list option" where
  "stepStatuses w buildId =
     map_option (\<lambda>b. map (\<lambda>step. (step_name step, step_status step))
                        (action_steps (build_action b)))
       (findUnique w buildId)"

subsection \<open>Example data\<close>

text \<open>A small application, a commit and two builds of it, used to run the definitions.\<close>

definition app1 :: App where
  "app1 = \<lparr> app_id = ''app1'', app_name = ''shop'', app_description = ''a shop'',
            app_githubSyncEnabled = True, app_githubRepo = ''acme/shop'',
            app_githubBranch = ''main'', app_githubToken = ''token'' \<rparr>"

definition commit1 :: Commit where
  "commit1 = \<lparr> commit_id = ''commit-0123456789'', commit_message = ''first'' \<rparr>"

definition queued_build :: Build where
  "queued_build =
     \<lparr> build_id = ''b1'', build_appId = ''app1'', build_actionId = ''a1'',
       build_version = ''23456789'', build_message = ''first build'', build_createdAt = 1000,
       build_images = [], build_containerStatusQuery = None,
       build_containerStatusUpdatedAt = None,
       build_action = \<lparr> action_steps = [createInitialStepData ''23456789'' ''first build'' 1000] \<rparr>,
       build_app = app1, build_commit = commit1 \<rparr>"

definition generated_step :: ActionStep where
  "generated_step =
     \<lparr> step_name = GENERATE_STEP_NAME, step_message = GENERATE_STEP_MESSAGE,
       step_status = StepSuccess, step_completedAt = Some 2000, step_logs = [] \<rparr>"

definition generated_build :: Build where
  "generated_build =
     queued_build \<lparr> build_id := ''b2'', build_actionId := ''a2'',
       build_action := \<lparr> action_steps =
         [createInitialStepData ''23456789'' ''first build'' 1000, generated_step] \<rparr> \<rparr>"

definition world1 :: World where
  "world1 = \<lparr> builds = [queued_build, generated_build],
              disk = [''builds/b2.zip'' \<mapsto> ''PK-b2''],
              calls = [] \<rparr>"

text \<open>
  Three builds waiting for their Docker image: two of the application \<open>app1\<close> and one
  of \<open>app2\<close>, in a table that does not hold them in the order of their creation.
\<close>

definition docker_step :: ActionStep where
  "docker_step =
     \<lparr> step_name = BUILD_DOCKER_IMAGE_STEP_NAME, step_message = BUILD_DOCKER_IMAGE_STEP_MESSAGE,
       step_status = StepRunning, step_completedAt = None, step_logs = [] \<rparr>"

definition docker_build :: "ident \<Rightarrow> ident \<Rightarrow> ident \<Rightarrow> date \<Rightarrow> string \<Rightarrow> Build" where
  "docker_build buildId appId actionId createdAt query =
     queued_build \<lparr> build_id := buildId, build_appId := appId, build_actionId := actionId,
       build_createdAt := createdAt, build_containerStatusQuery := Some query,
       build_containerStatusUpdatedAt := Some 50000,
       build_action := \<lparr> action_steps =
         [createInitialStepData ''23456789'' ''first build'' 1000, generated_step,
          docker_step] \<rparr> \<rparr>"

definition build3 :: Build where
  "build3 = docker_build ''b3'' ''app1'' ''a3'' 3000 ''q-3''"

definition build4 :: Build where
  "build4 = docker_build ''b4'' ''app1'' ''a4'' 4000 ''q-down''"

definition build5 :: Build where
  "build5 = docker_build ''b5'' ''app2'' ''a5'' 3500 ''q-5''"

definition world2 :: World where
  "world2 = \<lparr> builds = [build4, build5, build3], disk = Map.empty, calls = [] \<rparr>"

text \<open>A request for a build of \<open>app1\<close>, and a store without builds.\<close>

definition args1 :: CreateBuildArgs where
  "args1 = \<lparr> args_appId = ''app1'', args_commitId = ''commit-0123456789'',
             args_message = ''first build'' \<rparr>"

definition world0 :: World where
  "world0 = \<lparr> builds = [], disk = Map.empty, calls = [] \<rparr>"

text \<open>Two entities created in the same millisecond, and a later one.\<close>

definition user_entity :: Entity where
  "user_entity = \<lparr> entity_id = ''e1'', entity_name = ''User'', entity_createdAt = 5000 \<rparr>"

definition order_entity :: Entity where
  "order_entity = \<lparr> entity_id = ''e2'', entity_name = ''Order'', entity_createdAt = 5000 \<rparr>"

definition item_entity :: Entity where
  "item_entity = \<lparr> entity_id = ''e3'', entity_name = ''Item'', entity_createdAt = 7000 \<rparr>"

text \<open>
  Collaborators for the examples: a generator that writes one module per entity, a disk
  without URLs, a GitHub that accepts the pull request, a container builder whose build
  fails at once and whose status query \<open>q-down\<close> cannot be reached, a deployment
  service that may deploy, and an action service that leaves the step of the Docker build
  Running.
\<close>

definition env1 :: Env where
  "env1 =
     \<lparr> env_now = 100000,
       env_host = ''https://app.example'',
       env_getEntitiesByVersions = (\<lambda>_. [item_entity, user_entity]),
       env_createDataService =
         (\<lambda>_ entities. Inr (map (\<lambda>e. \<lparr> module_path = entity_name e, module_code = ''code'' \<rparr>)
                               entities)),
       env_createZipFileFromModules = (\<lambda>modules. ''zip:'' @ concat (map module_path modules)),
       env_createTarGzFileFromModules = (\<lambda>modules. ''tar:'' @ concat (map module_path modules)),
       env_getBuildZipFilePath = (\<lambda>i. ''builds/'' @ i @ ''.zip''),
       env_getBuildTarGzFilePath = (\<lambda>i. ''builds/'' @ i @ ''.tar.gz''),
       env_getUrl = (\<lambda>_. Inl MethodNotSupported),
       env_localDiskRoot = ''/data'',
       env_pathJoin = (\<lambda>root filePath. root @ ''/'' @ filePath),
       env_projectsMirror = None,
       env_createPullRequest = (\<lambda>_ _. Inr ''https://github.example/acme/shop/pull/1''),
       env_createImageId = (\<lambda>tag. ''registry/'' @ tag),
       env_containerBuild =
         (\<lambda>_ _ _. Inr \<lparr> result_status = CbFailed, result_images = [],
                         result_statusQuery = None \<rparr>),
       env_getStatus =
         (\<lambda>q. if q = Some ''q-down'' then Inl (ExternalError ''ECONNRESET'')
              else Inr \<lparr> result_status = CbCompleted, result_images = [''img:v1''],
                         result_statusQuery = q \<rparr>),
       env_canDeploy = True,
       env_app = (\<lambda>i. if i = ''app1'' then Some app1 else None),
       env_commit = (\<lambda>i. if i = ''commit-0123456789'' then Some commit1 else None),
       env_newBuildId = ''b9'',
       env_newActionId = ''a9'',
       env_leavesStepRunning = (\<lambda>name. name = BUILD_DOCKER_IMAGE_STEP_NAME) \<rparr>"

text \<open>The Build that \<open>create\<close> makes of the request \<open>args1\<close> with these collaborators.\<close>

definition new_build :: Build where
  "new_build =
     \<lparr> build_id = ''b9'', build_appId = ''app1'', build_actionId = ''a9'',
       build_version = ''23456789'', build_message = ''first build'',
       build_createdAt = 100000, build_images = [], build_containerStatusQuery = None,
       build_containerStatusUpdatedAt = None,
       build_action = \<lparr> action_steps =
         [createInitialStepData ''23456789'' ''first build'' 100000] \<rparr>,
       build_app = app1, build_commit = commit1 \<rparr>"

text \<open>The same collaborators with a code generator that throws.\<close>

definition env_generator_down :: Env where
  "env_generator_down =
     env1 \<lparr> env_createDataService := (\<lambda>_ _. Inl (ExternalError ''generator failed'')) \<rparr>"
section \<open>Properties\<close>

subsection \<open>What the operations of the store leave alone\<close>

lemma find_map_same_key:
  assumes "\<And>x. P (g x) = P x"
  shows "find P (map g xs) = map_option g (find P xs)"
  using assms by (induction xs) auto

lemma updateStepOf_fields [simp]:
  "build_id (updateStepOf ref f b) = build_id b"
  "build_appId (updateStepOf ref f b) = build_appId b"
  "build_actionId (updateStepOf ref f b) = build_actionId b"
  "build_createdAt (updateStepOf ref f b) = build_createdAt b"
  "build_images (updateStepOf ref f b) = build_images b"
  "build_containerStatusQuery (updateStepOf ref f b) = build_containerStatusQuery b"
  "build_containerStatusUpdatedAt (updateStepOf ref f b) = build_containerStatusUpdatedAt b"
  by (simp_all add: updateStepOf_def)

lemma updateStepOf_steps:
  "action_steps (build_action (updateStepOf ref f b)) =
     (if build_actionId b = fst ref
      then (action_steps (build_action b))[snd ref := f (action_steps (build_action b) ! snd ref)]
      else action_steps (build_action b))"
  by (simp add: updateStepOf_def list_update_beyond)

lemma updateStepOf_other [simp]:
  "build_actionId b \<noteq> fst ref \<Longrightarrow> updateStepOf ref f b = b"
  by (simp add: updateStepOf_def)

lemma updateStep_simps [simp]:
  "calls (updateStep ref f w) = calls w"
  "disk (updateStep ref f w) = disk w"
  "builds (updateStep ref f w) = map (updateStepOf ref f) (builds w)"
  by (simp_all add: updateStep_def)

lemma findUnique_updateStep:
  "findUnique (updateStep ref f w) i = map_option (updateStepOf ref f) (findUnique w i)"
  by (simp add: findUnique_def find_map_same_key)

lemma lookupStep_updateStep:
  "lookupStep (updateStep ref f w) ref' =
     (if ref' = ref then map_option f (lookupStep w ref) else lookupStep w ref')"
proof -
  have k: "find (\<lambda>b. build_actionId b = a) (map (updateStepOf ref f) (builds w)) =
           map_option (updateStepOf ref f) (find (\<lambda>b. build_actionId b = a) (builds w))" for a
    by (rule find_map_same_key) simp
  show ?thesis
  proof (cases "find (\<lambda>b. build_actionId b = fst ref') (builds w)")
    case None
    then show ?thesis
      by (auto simp: lookupStep_def k)
  next
    case (Some b)
    then have a: "build_actionId b = fst ref'"
      by (auto simp: find_Some_iff)
    show ?thesis
      using Some a
      by (auto simp: lookupStep_def k updateStepOf_steps prod_eq_iff)
  qed
qed

lemma logInfo_simps [simp]:
  "calls (logInfo step message meta w) = calls w"
  "disk (logInfo step message meta w) = disk w"
  by (simp_all add: logInfo_def log_def)

lemma lookupStep_logInfo_status [simp]:
  "map_option step_status (lookupStep (logInfo step message meta w) ref) =
   map_option step_status (lookupStep w ref)"
  by (cases "lookupStep w step")
    (auto simp: logInfo_def log_def lookupStep_updateStep)

lemma findUnique_logInfo:
  "findUnique (logInfo step message meta w) i =
   map_option (updateStepOf step
     (\<lambda>s. s \<lparr> step_logs := step_logs s @
        [\<lparr> log_level = Info, log_message = message, log_meta = meta \<rparr>] \<rparr>)) (findUnique w i)"
  by (simp add: logInfo_def log_def findUnique_updateStep)

lemma complete_running:
  assumes "map_option step_status (lookupStep w step) = Some StepRunning"
  shows "complete step status now w =
     (Inr (), updateStep step (\<lambda>s. s \<lparr> step_status := status, step_completedAt := Some now \<rparr>) w)"
  using assms by (auto simp: complete_def split: option.splits)

lemma complete_not_running:
  assumes "map_option step_status (lookupStep w step) \<noteq> Some StepRunning"
  shows "complete step status now w = (Inl InvalidStepTransition, w)"
  using assms by (auto simp: complete_def split: option.splits)

lemma updateBuild_found:
  assumes "findUnique w buildId = Some row"
  shows "updateBuild buildId f w =
     (Inr (), w \<lparr> builds := map (\<lambda>b. if build_id b = buildId then f b else b) (builds w) \<rparr>)"
  using assms by (simp add: updateBuild_def)

lemma called_simps [simp]:
  "calls (called c w) = calls w @ [c]"
  "disk (called c w) = disk w"
  "builds (called c w) = builds w"
  "findUnique (called c w) i = findUnique w i"
  "lookupStep (called c w) ref = lookupStep w ref"
  by (simp_all add: called_def findUnique_def lookupStep_def)

lemma findUnique_map_rows:
  assumes "\<And>b. build_id (g b) = build_id b"
  shows "findUnique (w \<lparr> builds := map g (builds w) \<rparr>) i = map_option g (findUnique w i)"
  using assms by (simp add: findUnique_def find_map_same_key)

lemma lookupStep_map_rows:
  assumes "\<And>b. build_actionId (g b) = build_actionId b"
    and "\<And>b. build_action (g b) = build_action b"
  shows "lookupStep (w \<lparr> builds := map g (builds w) \<rparr>) ref = lookupStep w ref"
proof -
  have "find (\<lambda>b. build_actionId b = fst ref) (map g (builds w)) =
        map_option g (find (\<lambda>b. build_actionId b = fst ref) (builds w))"
    by (rule find_map_same_key) (simp add: assms)
  then show ?thesis
    by (auto simp: lookupStep_def assms split: option.splits)
qed

lemma lookupStep_completed:
  assumes "map_option step_status (lookupStep w step) = Some x"
  shows "map_option step_status
           (lookupStep (updateStep step
              (\<lambda>s. s \<lparr> step_status := st, step_completedAt := t \<rparr>) w) step) = Some st"
  using assms by (cases "lookupStep w step") (auto simp: lookupStep_updateStep)

lemma findUnique_Some_id:
  "findUnique w i = Some b \<Longrightarrow> build_id b = i"
  by (auto simp: findUnique_def find_Some_iff)

subsection \<open>The derived status\<close>

lemma calcBuildStatus_found:
  assumes "findUnique w buildId = Some b"
  shows "calcBuildStatus w buildId =
     Inr (if action_steps (build_action b) = [] then Invalid
          else if (\<forall>s \<in> set (action_steps (build_action b)). step_status s = StepSuccess)
            then Completed
          else if (\<exists>s \<in> set (action_steps (build_action b)). step_status s = StepFailed)
            then Failed
          else Running)"
  using assms by (simp add: calcBuildStatus_def Let_def list_all_iff list_ex_iff)

text \<open>
  C4. For an existing Build, \<open>calcBuildStatus\<close> returns a status, and which one is decided
  by the statuses of the steps of its Action alone: Invalid iff the Action has no steps,
  Completed iff it has steps and all of them are Success (an Action without steps is the
  Invalid case), Failed iff some step is Failed and not all are Success, and Running in
  every other case. Any two Builds whose steps carry the same statuses get the same
  answer.
\<close>

theorem calcBuildStatus_by_step_statuses:
  assumes "findUnique w buildId = Some b"
  shows "\<exists>st. calcBuildStatus w buildId = Inr st \<and>
     (st = Invalid \<longleftrightarrow> action_steps (build_action b) = []) \<and>
     (st = Completed \<longleftrightarrow>
        action_steps (build_action b) \<noteq> [] \<and>
        (\<forall>s \<in> set (action_steps (build_action b)). step_status s = StepSuccess)) \<and>
     (st = Failed \<longleftrightarrow>
        (\<exists>s \<in> set (action_steps (build_action b)). step_status s = StepFailed) \<and>
        \<not> (\<forall>s \<in> set (action_steps (build_action b)). step_status s = StepSuccess)) \<and>
     (st = Running \<longleftrightarrow>
        action_steps (build_action b) \<noteq> [] \<and>
        \<not> (\<forall>s \<in> set (action_steps (build_action b)). step_status s = StepSuccess) \<and>
        \<not> (\<exists>s \<in> set (action_steps (build_action b)). step_status s = StepFailed)) \<and>
     (\<forall>w' buildId' b'.
        findUnique w' buildId' = Some b' \<and>
        map step_status (action_steps (build_action b')) =
          map step_status (action_steps (build_action b))
        \<longrightarrow> calcBuildStatus w' buildId' = calcBuildStatus w buildId)"
proof -
  let ?steps = "action_steps (build_action b)"
  have pure: "calcBuildStatus w' i' = calcBuildStatus w buildId"
    if f: "findUnique w' i' = Some b'"
      and m: "map step_status (action_steps (build_action b')) = map step_status ?steps"
    for w' i' b'
  proof -
    have s: "step_status ` set (action_steps (build_action b')) = step_status ` set ?steps"
      using m by (metis list.set_map)
    have e: "action_steps (build_action b') = [] \<longleftrightarrow> ?steps = []"
      using m by (metis map_is_Nil_conv)
    have a: "(\<forall>s \<in> set (action_steps (build_action b')). step_status s = StepSuccess) \<longleftrightarrow>
             (\<forall>s \<in> set ?steps. step_status s = StepSuccess)"
      using s by (metis (no_types, lifting) image_iff)
    have x: "(\<exists>s \<in> set (action_steps (build_action b')). step_status s = StepFailed) \<longleftrightarrow>
             (\<exists>s \<in> set ?steps. step_status s = StepFailed)"
      using s by (metis (no_types, lifting) image_iff)
    show ?thesis
      unfolding calcBuildStatus_found [OF f] calcBuildStatus_found [OF assms]
      using e a x by simp
  qed
  have "calcBuildStatus w buildId =
     Inr (if ?steps = [] then Invalid
          else if (\<forall>s \<in> set ?steps. step_status s = StepSuccess) then Completed
          else if (\<exists>s \<in> set ?steps. step_status s = StepFailed) then Failed
          else Running)"
    by (rule calcBuildStatus_found [OF assms])
  moreover have "?steps \<noteq> [] \<Longrightarrow> \<exists>s. s \<in> set ?steps"
    by (cases ?steps) auto
  ultimately show ?thesis
    using pure by (auto split: if_splits)
qed

theorem calcBuildStatus_by_step_statuses_witness:
  "findUnique world1 ''b2'' = Some generated_build \<and>
   calcBuildStatus world1 ''b2'' = Inr Completed"
proof -
  have f: "findUnique world1 ''b2'' = Some generated_build"
    by (simp add: findUnique_def world1_def queued_build_def generated_build_def)
  have "action_steps (build_action generated_build) \<noteq> [] \<and>
        (\<forall>s \<in> set (action_steps (build_action generated_build)). step_status s = StepSuccess)"
    by (simp add: generated_build_def generated_step_def createInitialStepData_def)
  with calcBuildStatus_by_step_statuses [OF f] f show ?thesis
    by auto
qed

text \<open>
  C10. For a build id that matches no row, \<open>calcBuildStatus\<close> returns no status, not
  even Invalid: reading the action of the absent lookup result raises a \<open>TypeError\<close>.
\<close>

theorem calcBuildStatus_unknown_build:
  assumes "buildId \<notin> build_id ` set (builds w)"
  shows "calcBuildStatus w buildId = Inl TypeError \<and>
         (\<forall>st. calcBuildStatus w buildId \<noteq> Inr st)"
proof -
  have "findUnique w buildId = None"
    using assms by (auto simp: findUnique_def find_None_iff)
  then show ?thesis
    by (simp add: calcBuildStatus_def)
qed

theorem calcBuildStatus_unknown_build_witness:
  "''nope'' \<notin> build_id ` set (builds world1) \<and>
   calcBuildStatus world1 ''nope'' = Inl TypeError \<and>
   calcBuildStatus world1 ''nope'' \<noteq> Inr Invalid"
proof -
  have h: "''nope'' \<notin> build_id ` set (builds world1)"
    by (simp add: world1_def queued_build_def generated_build_def)
  from calcBuildStatus_unknown_build [OF h] h show ?thesis
    by simp
qed

subsection \<open>The initial step\<close>

lemma create_example_record:
  "createBuildRecord env1 args1 world0 =
     (Inr new_build, \<lparr> builds = [new_build], disk = Map.empty, calls = [] \<rparr>)"
  by (simp add: createBuildRecord_def env1_def args1_def world0_def app1_def commit1_def
      slice_def Let_def new_build_def)

text \<open>
  C9. The initial step is named \<open>ADD_TO_QUEUE\<close> and is created in status Success with a
  completion time, and the row \<open>create\<close> persists for a Build holds this step alone. So
  a Build whose Action holds only the initial step, before generation has begun, gets
  the status Completed from \<open>calcBuildStatus\<close>, not Running.
\<close>

theorem initial_step_makes_build_completed:
  "step_name (createInitialStepData version message now) = ''ADD_TO_QUEUE'' \<and>
   step_status (createInitialStepData version message now) = StepSuccess \<and>
   step_completedAt (createInitialStepData version message now) = Some now \<and>
   (createBuildRecord env args w0 = (Inr build, w1) \<longrightarrow>
      action_steps (build_action build) =
        [createInitialStepData (build_version build) (args_message args) (env_now env)]) \<and>
   (findUnique w buildId = Some b \<and>
    action_steps (build_action b) = [createInitialStepData version message now]
    \<longrightarrow> calcBuildStatus w buildId = Inr Completed)"
proof -
  have "action_steps (build_action build) =
        [createInitialStepData (build_version build) (args_message args) (env_now env)]"
    if "createBuildRecord env args w0 = (Inr build, w1)"
    using that by (auto simp: createBuildRecord_def Let_def split: option.splits)
  moreover have "calcBuildStatus w buildId = Inr Completed"
    if "findUnique w buildId = Some b"
      and "action_steps (build_action b) = [createInitialStepData version message now]"
    using that by (simp add: calcBuildStatus_found createInitialStepData_def)
  ultimately show ?thesis
    by (simp add: createInitialStepData_def)
qed

theorem initial_step_makes_build_completed_witness:
  "createBuildRecord env1 args1 world0 =
     (Inr new_build, \<lparr> builds = [new_build], disk = Map.empty, calls = [] \<rparr>) \<and>
   findUnique \<lparr> builds = [new_build], disk = Map.empty, calls = [] \<rparr> ''b9'' = Some new_build \<and>
   action_steps (build_action new_build) =
     [createInitialStepData (build_version new_build) (args_message args1) (env_now env1)] \<and>
   calcBuildStatus \<lparr> builds = [new_build], disk = Map.empty, calls = [] \<rparr> ''b9'' = Inr Completed"
proof -
  let ?w1 = "\<lparr> builds = [new_build], disk = Map.empty, calls = [] \<rparr>"
  have f: "findUnique ?w1 ''b9'' = Some new_build"
    by (simp add: findUnique_def new_build_def)
  from initial_step_makes_build_completed
    [of "build_version new_build" "args_message args1" "env_now env1" env1 args1 world0
        new_build ?w1 ?w1 "''b9''" new_build]
    create_example_record f
  show ?thesis
    by blast
qed

subsection \<open>Download\<close>

text \<open>
  C7. For the id of an existing Build, \<open>download\<close> fails with \<open>StepNotFoundError\<close> when
  the Build has no step named \<open>GENERATE_APPLICATION\<close>; with \<open>StepNotCompleteError\<close> when
  that step exists and its status is not Success; with \<open>BuildResultNotFound\<close> when the
  step is Success and the disk holds no object at the Build's zip path; and otherwise it
  returns the content of the object at the Build's zip path, the path \<open>save\<close> writes the
  zip archive to.
\<close>

theorem download_cases:
  assumes "findOne w buildId = Some b"
  shows
    "((\<forall>s \<in> set (action_steps (build_action b)). step_name s \<noteq> GENERATE_STEP_NAME)
        \<longrightarrow> download env w buildId = Inl (StepNotFoundError GENERATE_STEP_NAME)) \<and>
     (\<forall>g. find (\<lambda>s. step_name s = GENERATE_STEP_NAME) (action_steps (build_action b)) = Some g
        \<longrightarrow>
        (step_status g \<noteq> StepSuccess \<longrightarrow>
           download env w buildId =
             Inl (StepNotCompleteError GENERATE_STEP_NAME (step_status g))) \<and>
        (step_status g = StepSuccess \<and> disk w (env_getBuildZipFilePath env buildId) = None
           \<longrightarrow> download env w buildId = Inl (BuildResultNotFound buildId)) \<and>
        (\<forall>content.
           step_status g = StepSuccess \<and>
           disk w (env_getBuildZipFilePath env buildId) = Some content
           \<longrightarrow> download env w buildId = Inr content))"
proof -
  have f: "findUnique w buildId = Some b"
    using assms by (simp add: findOne_def)
  then have i: "build_id b = buildId"
    by (auto simp: findUnique_def find_Some_iff)
  have none: "find (\<lambda>s. step_name s = GENERATE_STEP_NAME) (action_steps (build_action b)) = None"
    if "\<forall>s \<in> set (action_steps (build_action b)). step_name s \<noteq> GENERATE_STEP_NAME"
    using that by (simp add: find_None_iff)
  show ?thesis
    using assms f i none
    by (auto simp: download_def getGenerateCodeStepStatus_def Let_def)
qed

theorem download_cases_witness:
  "findOne world1 ''b2'' = Some generated_build \<and>
   download env1 world1 ''b2'' = Inr ''PK-b2'' \<and>
   download env1 world1 ''b1'' = Inl (StepNotFoundError GENERATE_STEP_NAME)"
proof -
  have f: "findOne world1 ''b2'' = Some generated_build"
    by (simp add: findOne_def findUnique_def world1_def queued_build_def generated_build_def)
  have g: "find (\<lambda>s. step_name s = GENERATE_STEP_NAME)
             (action_steps (build_action generated_build)) = Some generated_step"
    by (simp add: generated_build_def generated_step_def createInitialStepData_def
        GENERATE_STEP_NAME_def)
  have s: "step_status generated_step = StepSuccess"
    by (simp add: generated_step_def)
  have d: "disk world1 (env_getBuildZipFilePath env1 ''b2'') = Some ''PK-b2''"
    by (simp add: world1_def env1_def)
  have f1: "findOne world1 ''b1'' = Some queued_build"
    by (simp add: findOne_def findUnique_def world1_def queued_build_def)
  have n: "\<forall>s \<in> set (action_steps (build_action queued_build)). step_name s \<noteq> GENERATE_STEP_NAME"
    by (simp add: queued_build_def createInitialStepData_def GENERATE_STEP_NAME_def)
  from download_cases [OF f, of env1] download_cases [OF f1, of env1] f g s d n show ?thesis
    by simp
qed

text \<open>The zip path is where \<open>save\<close> puts the zip archive of the generated modules.\<close>

lemma save_writes_zip:
  assumes "env_getBuildZipFilePath env (build_id build) \<noteq>
           env_getBuildTarGzFilePath env (build_id build)"
  shows "disk (snd (save env build modules w)) (env_getBuildZipFilePath env (build_id build)) =
         Some (env_createZipFileFromModules env modules)"
  using assms by (simp add: save_def diskPut_def called_def Let_def)

subsection \<open>The order of the entities\<close>

lemma getOrderedEntities_sorted:
  "sorted (map entity_createdAt (getOrderedEntities env buildId))"
  by (simp add: getOrderedEntities_def orderBy_def)

lemma getOrderedEntities_mset:
  "mset (getOrderedEntities env buildId) = mset (env_getEntitiesByVersions env buildId)"
  by (simp add: getOrderedEntities_def orderBy_def)

lemma getOrderedEntities_distinct_timestamps:
  assumes "mset (env_getEntitiesByVersions env buildId) =
           mset (env_getEntitiesByVersions env' buildId)"
    and "distinct (map entity_createdAt (env_getEntitiesByVersions env buildId))"
  shows "getOrderedEntities env buildId = getOrderedEntities env' buildId"
proof -
  let ?xs = "env_getEntitiesByVersions env buildId"
  let ?ys = "env_getEntitiesByVersions env' buildId"
  have i: "inj_on entity_createdAt (set ?xs)"
    using assms(2) by (simp add: distinct_map)
  have m: "mset ?xs = mset (sort_key entity_createdAt ?ys)"
    using assms(1) by simp
  have s: "sorted (map entity_createdAt (sort_key entity_createdAt ?ys))"
    by simp
  have "sort_key entity_createdAt ?xs = sort_key entity_createdAt ?ys"
    by (rule sort_key_inj_key_eq [OF m i s])
  then show ?thesis
    by (simp add: getOrderedEntities_def orderBy_def)
qed

text \<open>
  C8 at entities with equal creation times. The result is always sorted ascending by
  creation time (\<open>getOrderedEntities_sorted\<close>) and does not depend on the query's order
  when the creation times differ pairwise (\<open>getOrderedEntities_distinct_timestamps\<close>).
  For two entities created in the same millisecond the sort keeps the order of the query:
  the same entity set, yielded in two different orders, comes back in two different
  orders.
\<close>

theorem getOrderedEntities_equal_timestamps:
  "getOrderedEntities
     (env \<lparr> env_getEntitiesByVersions := (\<lambda>_. [user_entity, order_entity, item_entity]) \<rparr>)
     buildId = [user_entity, order_entity, item_entity] \<and>
   getOrderedEntities
     (env \<lparr> env_getEntitiesByVersions := (\<lambda>_. [item_entity, order_entity, user_entity]) \<rparr>)
     buildId = [order_entity, user_entity, item_entity] \<and>
   mset [user_entity, order_entity, item_entity] = mset [item_entity, order_entity, user_entity] \<and>
   [user_entity, order_entity, item_entity] \<noteq> [order_entity, user_entity, item_entity]"
  by (simp add: getOrderedEntities_def orderBy_def user_entity_def order_entity_def
      item_entity_def)

subsection \<open>Handling the result of the container builder\<close>

lemma handle_running_step:
  assumes "findUnique w (build_id build) = Some row"
    and "map_option step_status (lookupStep w step) = Some StepRunning"
  shows "\<exists>w'. handleContainerBuilderResult env build step result w = (Inr (), w') \<and>
     (result_status result = CbCompleted \<longrightarrow>
        map_option build_images (findUnique w' (build_id build)) = Some (result_images result) \<and>
        map_option step_status (lookupStep w' step) = Some StepSuccess \<and>
        calls w' = calls w @
          (if env_canDeploy env then [AutoDeployToSandbox (build_id build)] else [])) \<and>
     (result_status result = CbFailed \<longrightarrow>
        map_option step_status (lookupStep w' step) = Some StepFailed \<and>
        map_option build_images (findUnique w' (build_id build)) = Some (build_images row) \<and>
        calls w' = calls w) \<and>
     (result_status result \<noteq> CbCompleted \<and> result_status result \<noteq> CbFailed \<longrightarrow>
        map_option build_containerStatusQuery (findUnique w' (build_id build)) =
          Some (case result_statusQuery result of
                  None \<Rightarrow> build_containerStatusQuery row
                | Some statusQuery \<Rightarrow> Some statusQuery) \<and>
        map_option build_containerStatusUpdatedAt (findUnique w' (build_id build)) =
          Some (Some (env_now env)) \<and>
        map_option step_status (lookupStep w' step) = Some StepRunning \<and>
        map_option build_images (findUnique w' (build_id build)) = Some (build_images row) \<and>
        calls w' = calls w)"
proof -
  have i: "build_id row = build_id build"
    using assms(1) by (rule findUnique_Some_id)
  obtain s where s: "lookupStep w step = Some s" "step_status s = StepRunning"
    using assms(2) by auto
  show ?thesis
  proof (cases "result_status result")
    case CbCompleted
    let ?w1 = "logInfo step (LogText BUILD_DOCKER_IMAGE_STEP_FINISH_LOG)
                 [(''images'', result_images result)] w"
    let ?w2 = "updateStep step
                 (\<lambda>s. s \<lparr> step_status := StepSuccess, step_completedAt := Some (env_now env) \<rparr>) ?w1"
    let ?g = "\<lambda>b. if build_id b = build_id build
                   then b \<lparr> build_images := result_images result \<rparr> else b"
    let ?w3 = "?w2 \<lparr> builds := map ?g (builds ?w2) \<rparr>"
    have r1: "map_option step_status (lookupStep ?w1 step) = Some StepRunning"
      using assms(2) by simp
    have c: "complete step StepSuccess (env_now env) ?w1 = (Inr (), ?w2)"
      by (rule complete_running [OF r1])
    have f2: "findUnique ?w2 (build_id build) \<noteq> None"
      using assms(1) by (simp add: findUnique_updateStep findUnique_logInfo)
    then obtain row2 where row2: "findUnique ?w2 (build_id build) = Some row2"
      by auto
    have u: "updateBuild (build_id build) (\<lambda>b. b \<lparr> build_images := result_images result \<rparr>) ?w2
             = (Inr (), ?w3)"
      by (rule updateBuild_found [OF row2])
    have l2: "map_option step_status (lookupStep ?w2 step) = Some StepSuccess"
      by (rule lookupStep_completed [OF r1])
    have l3: "lookupStep ?w3 step = lookupStep ?w2 step"
      by (rule lookupStep_map_rows) simp_all
    have f3: "findUnique ?w3 (build_id build) = map_option ?g (findUnique ?w2 (build_id build))"
      by (rule findUnique_map_rows) simp
    have i3: "map_option build_images (findUnique ?w3 (build_id build)) = Some (result_images result)"
      unfolding f3 row2 using findUnique_Some_id [OF row2] by simp
    have k3: "calls ?w3 = calls w"
      by simp
    show ?thesis
    proof (cases "env_canDeploy env")
      case True
      have "handleContainerBuilderResult env build step result w =
              (Inr (), called (AutoDeployToSandbox (build_id build)) ?w3)"
        using CbCompleted True c u by (simp add: handleContainerBuilderResult_def)
      then show ?thesis
        using CbCompleted True l2 l3 i3 k3 by simp
    next
      case False
      have "handleContainerBuilderResult env build step result w = (Inr (), ?w3)"
        using CbCompleted False c u by (simp add: handleContainerBuilderResult_def)
      then show ?thesis
        using CbCompleted False l2 l3 i3 k3 by simp
    qed
  next
    case CbFailed
    let ?w1 = "logInfo step (LogText BUILD_DOCKER_IMAGE_STEP_FAILED_LOG) [] w"
    let ?w2 = "updateStep step
                 (\<lambda>s. s \<lparr> step_status := StepFailed, step_completedAt := Some (env_now env) \<rparr>) ?w1"
    have r1: "map_option step_status (lookupStep ?w1 step) = Some StepRunning"
      using assms(2) by simp
    have c: "complete step StepFailed (env_now env) ?w1 = (Inr (), ?w2)"
      by (rule complete_running [OF r1])
    have h: "handleContainerBuilderResult env build step result w = (Inr (), ?w2)"
      using CbFailed c by (simp add: handleContainerBuilderResult_def)
    have l2: "map_option step_status (lookupStep ?w2 step) = Some StepFailed"
      by (rule lookupStep_completed [OF r1])
    have i2: "map_option build_images (findUnique ?w2 (build_id build)) = Some (build_images row)"
      using assms(1) by (simp add: findUnique_updateStep findUnique_logInfo)
    show ?thesis
      using CbFailed h l2 i2 by simp
  next
    case CbRunning
    let ?w1 = "logInfo step (LogText BUILD_DOCKER_IMAGE_STEP_RUNNING_LOG) [] w"
    let ?g = "\<lambda>b. if build_id b = build_id build
                   then b \<lparr> build_containerStatusQuery :=
                         (case result_statusQuery result of
                            None \<Rightarrow> build_containerStatusQuery b
                          | Some statusQuery \<Rightarrow> Some statusQuery),
                            build_containerStatusUpdatedAt := Some (env_now env) \<rparr>
                   else b"
    let ?w2 = "?w1 \<lparr> builds := map ?g (builds ?w1) \<rparr>"
    obtain row1 where row1: "findUnique ?w1 (build_id build) = Some row1"
      and img1: "build_images row1 = build_images row"
      and qry1: "build_containerStatusQuery row1 = build_containerStatusQuery row"
      using assms(1) by (auto simp: findUnique_logInfo)
    have u: "updateBuild (build_id build)
               (\<lambda>b. b \<lparr> build_containerStatusQuery :=
                         (case result_statusQuery result of
                            None \<Rightarrow> build_containerStatusQuery b
                          | Some statusQuery \<Rightarrow> Some statusQuery),
                         build_containerStatusUpdatedAt := Some (env_now env) \<rparr>) ?w1
             = (Inr (), ?w2)"
      by (rule updateBuild_found [OF row1])
    have h: "handleContainerBuilderResult env build step result w = (Inr (), ?w2)"
      using CbRunning u by (simp add: handleContainerBuilderResult_def)
    have l2: "lookupStep ?w2 step = lookupStep ?w1 step"
      by (rule lookupStep_map_rows) simp_all
    have f2: "findUnique ?w2 (build_id build) = map_option ?g (findUnique ?w1 (build_id build))"
      by (rule findUnique_map_rows) simp
    have q2: "map_option build_containerStatusQuery (findUnique ?w2 (build_id build)) =
                Some (case result_statusQuery result of
                        None \<Rightarrow> build_containerStatusQuery row
                      | Some statusQuery \<Rightarrow> Some statusQuery)"
      unfolding f2 row1 using findUnique_Some_id [OF row1] qry1
      by (simp split: option.split)
    have t2: "map_option build_containerStatusUpdatedAt (findUnique ?w2 (build_id build)) =
                Some (Some (env_now env))"
      unfolding f2 row1 using findUnique_Some_id [OF row1] by simp
    have i2: "map_option build_images (findUnique ?w2 (build_id build)) = Some (build_images row)"
      unfolding f2 row1 using findUnique_Some_id [OF row1] img1 by simp
    have s2: "map_option step_status (lookupStep ?w2 step) = Some StepRunning"
      unfolding l2 using assms(2) by simp
    have k2: "calls ?w2 = calls w"
      by simp
    show ?thesis
      unfolding h using CbRunning q2 t2 i2 s2 k2 by simp
  qed
qed

text \<open>
  C5. Let the Build have its row and let the step be Running. Then handling a result of
  the container builder goes one of three ways and does not throw. Status Completed: the
  images of the result are stored on the Build, the step becomes Success, and the
  deployment to the sandbox is called if and only if \<open>canDeploy\<close> holds. Status Failed:
  the step becomes Failed, the images of the Build stay as they were and no collaborator
  is called. Any other status: the status query of the result is stored on the Build (a
  result that carries none leaves the stored one as it was), the time of the poll is
  stored, the step stays Running, the images stay as they were and no collaborator is
  called.
\<close>

theorem handleContainerBuilderResult_cases:
  assumes "findUnique w (build_id build) = Some row"
    and "map_option step_status (lookupStep w step) = Some StepRunning"
  shows "\<exists>w'. handleContainerBuilderResult env build step result w = (Inr (), w') \<and>
     (result_status result = CbCompleted \<longrightarrow>
        map_option build_images (findUnique w' (build_id build)) = Some (result_images result) \<and>
        map_option step_status (lookupStep w' step) = Some StepSuccess \<and>
        calls w' = calls w @
          (if env_canDeploy env then [AutoDeployToSandbox (build_id build)] else [])) \<and>
     (result_status result = CbFailed \<longrightarrow>
        map_option step_status (lookupStep w' step) = Some StepFailed \<and>
        map_option build_images (findUnique w' (build_id build)) = Some (build_images row) \<and>
        calls w' = calls w) \<and>
     (result_status result \<noteq> CbCompleted \<and> result_status result \<noteq> CbFailed \<longrightarrow>
        map_option build_containerStatusQuery (findUnique w' (build_id build)) =
          Some (case result_statusQuery result of
                  None \<Rightarrow> build_containerStatusQuery row
                | Some statusQuery \<Rightarrow> Some statusQuery) \<and>
        map_option build_containerStatusUpdatedAt (findUnique w' (build_id build)) =
          Some (Some (env_now env)) \<and>
        map_option step_status (lookupStep w' step) = Some StepRunning \<and>
        map_option build_images (findUnique w' (build_id build)) = Some (build_images row) \<and>
        calls w' = calls w)"
  using assms by (rule handle_running_step)

lemma world2_build3:
  "findUnique world2 ''b3'' = Some build3"
  by (simp add: findUnique_def world2_def build3_def build4_def build5_def docker_build_def)

lemma world2_step3:
  "map_option step_status (lookupStep world2 (''a3'', 2)) = Some StepRunning"
  by (simp add: lookupStep_def world2_def build3_def build4_def build5_def docker_build_def
      docker_step_def)

lemma world2_query3:
  "build_containerStatusQuery build3 = Some ''q-3''"
  by (simp add: build3_def docker_build_def)

theorem handleContainerBuilderResult_cases_witness:
  "findUnique world2 (build_id build3) = Some build3 \<and>
   map_option step_status (lookupStep world2 (''a3'', 2)) = Some StepRunning \<and>
   fst (handleContainerBuilderResult env1 build3 (''a3'', 2)
          \<lparr> result_status = CbCompleted, result_images = [''img:v1''],
            result_statusQuery = None \<rparr> world2) = Inr () \<and>
   map_option step_status
     (lookupStep (snd (handleContainerBuilderResult env1 build3 (''a3'', 2)
          \<lparr> result_status = CbCompleted, result_images = [''img:v1''],
            result_statusQuery = None \<rparr> world2)) (''a3'', 2)) = Some StepSuccess \<and>
   calls (snd (handleContainerBuilderResult env1 build3 (''a3'', 2)
          \<lparr> result_status = CbCompleted, result_images = [''img:v1''],
            result_statusQuery = None \<rparr> world2)) = [AutoDeployToSandbox ''b3''] \<and>
   map_option build_containerStatusQuery
     (findUnique (snd (handleContainerBuilderResult env1 build3 (''a3'', 2)
          \<lparr> result_status = CbRunning, result_images = [],
            result_statusQuery = None \<rparr> world2)) ''b3'') = Some (Some ''q-3'') \<and>
   map_option build_containerStatusQuery
     (findUnique (snd (handleContainerBuilderResult env1 build3 (''a3'', 2)
          \<lparr> result_status = CbRunning, result_images = [],
            result_statusQuery = Some ''q-3b'' \<rparr> world2)) ''b3'') = Some (Some ''q-3b'') \<and>
   map_option step_status
     (lookupStep (snd (handleContainerBuilderResult env1 build3 (''a3'', 2)
          \<lparr> result_status = CbRunning, result_images = [],
            result_statusQuery = Some ''q-3b'' \<rparr> world2)) (''a3'', 2)) = Some StepRunning"
proof -
  have i: "build_id build3 = ''b3''"
    by (simp add: build3_def docker_build_def)
  have f: "findUnique world2 (build_id build3) = Some build3"
    unfolding i by (rule world2_build3)
  have c: "env_canDeploy env1" "calls world2 = []"
    by (simp_all add: env1_def world2_def)
  note h = handleContainerBuilderResult_cases [OF f world2_step3, of env1]
  from h [of "\<lparr> result_status = CbCompleted, result_images = [''img:v1''],
         result_statusQuery = None \<rparr>"]
  have a: "fst (handleContainerBuilderResult env1 build3 (''a3'', 2)
          \<lparr> result_status = CbCompleted, result_images = [''img:v1''],
            result_statusQuery = None \<rparr> world2) = Inr () \<and>
   map_option step_status
     (lookupStep (snd (handleContainerBuilderResult env1 build3 (''a3'', 2)
          \<lparr> result_status = CbCompleted, result_images = [''img:v1''],
            result_statusQuery = None \<rparr> world2)) (''a3'', 2)) = Some StepSuccess \<and>
   calls (snd (handleContainerBuilderResult env1 build3 (''a3'', 2)
          \<lparr> result_status = CbCompleted, result_images = [''img:v1''],
            result_statusQuery = None \<rparr> world2)) = [AutoDeployToSandbox ''b3'']"
    using c i by auto
  from h [of "\<lparr> result_status = CbRunning, result_images = [],
         result_statusQuery = None \<rparr>"]
  have b: "map_option build_containerStatusQuery
     (findUnique (snd (handleContainerBuilderResult env1 build3 (''a3'', 2)
          \<lparr> result_status = CbRunning, result_images = [],
            result_statusQuery = None \<rparr> world2)) ''b3'') = Some (Some ''q-3'')"
    using i world2_query3 by auto
  from h [of "\<lparr> result_status = CbRunning, result_images = [],
         result_statusQuery = Some ''q-3b'' \<rparr>"]
  have d: "map_option build_containerStatusQuery
     (findUnique (snd (handleContainerBuilderResult env1 build3 (''a3'', 2)
          \<lparr> result_status = CbRunning, result_images = [],
            result_statusQuery = Some ''q-3b'' \<rparr> world2)) ''b3'') = Some (Some ''q-3b'') \<and>
   map_option step_status
     (lookupStep (snd (handleContainerBuilderResult env1 build3 (''a3'', 2)
          \<lparr> result_status = CbRunning, result_images = [],
            result_statusQuery = Some ''q-3b'' \<rparr> world2)) (''a3'', 2)) = Some StepRunning"
    using i by auto
  show ?thesis
    using f world2_step3 a b d by simp
qed

subsection \<open>The reconciliation sweep\<close>

lemma rowLocal_refl: "rowLocal S (\<lambda>r. r)"
  by (simp add: rowLocal_def)

lemma rowLocal_comp:
  assumes "rowLocal S g" and "rowLocal S h"
  shows "rowLocal S (h \<circ> g)"
  using assms by (simp add: rowLocal_def)

lemma rowLocal_mono:
  assumes "S \<subseteq> T" and "rowLocal S g"
  shows "rowLocal T g"
  using assms unfolding rowLocal_def by (meson subsetD)

lemma touchesOnly_refl: "touchesOnly S w w"
proof -
  have "builds w = map (\<lambda>r. r) (builds w)"
    by simp
  with rowLocal_refl show ?thesis
    unfolding touchesOnly_def by blast
qed

lemma touchesOnly_trans:
  assumes "touchesOnly S w w1" and "touchesOnly S w1 w2"
  shows "touchesOnly S w w2"
proof -
  obtain g where g: "rowLocal S g" "builds w1 = map g (builds w)"
    using assms(1) by (auto simp: touchesOnly_def)
  obtain h where h: "rowLocal S h" "builds w2 = map h (builds w1)"
    using assms(2) by (auto simp: touchesOnly_def)
  have "builds w2 = map (h \<circ> g) (builds w)"
    using g(2) h(2) by simp
  with rowLocal_comp [OF g(1) h(1)] show ?thesis
    unfolding touchesOnly_def by blast
qed

lemma touchesOnly_mono:
  assumes "S \<subseteq> T" and "touchesOnly S w w'"
  shows "touchesOnly T w w'"
  using assms rowLocal_mono unfolding touchesOnly_def by blast

lemma touchesOnly_called:
  assumes "touchesOnly S w w1"
  shows "touchesOnly S w (called c w1)"
  using assms by (simp add: touchesOnly_def)

lemma map_name_update:
  assumes "\<And>s. step_name (f s) = step_name s"
  shows "map step_name (xs[i := f (xs ! i)]) = map step_name xs"
proof (cases "i < length xs")
  case True
  then show ?thesis
    by (intro nth_equalityI) (auto simp: nth_list_update assms)
next
  case False
  then show ?thesis
    by (simp add: list_update_beyond)
qed

lemma rowLocal_updateStepOf:
  assumes "b \<in> S" and "fst ref = build_actionId b" and "\<And>s. step_name (f s) = step_name s"
  shows "rowLocal S (updateStepOf ref f)"
  unfolding rowLocal_def
proof (intro conjI allI impI)
  fix r :: Build
  show "map step_name (action_steps (build_action (updateStepOf ref f r))) =
        map step_name (action_steps (build_action r))"
    by (simp add: updateStepOf_steps map_name_update assms(3))
next
  fix r :: Build
  assume "\<forall>b \<in> S. build_id r \<noteq> build_id b \<and> build_actionId r \<noteq> build_actionId b"
  then have "build_actionId r \<noteq> fst ref"
    using assms(1,2) by auto
  then show "updateStepOf ref f r = r"
    by simp
qed simp_all

lemma touchesOnly_updateStep:
  assumes "touchesOnly S w w1" and "b \<in> S" and "fst ref = build_actionId b"
    and "\<And>s. step_name (f s) = step_name s"
  shows "touchesOnly S w (updateStep ref f w1)"
proof -
  have "touchesOnly S w1 (updateStep ref f w1)"
    unfolding touchesOnly_def
    using rowLocal_updateStepOf [OF assms(2,3,4)] by (intro exI [of _ "updateStepOf ref f"]) simp
  with assms(1) show ?thesis
    by (rule touchesOnly_trans)
qed

lemma touchesOnly_logInfo:
  assumes "touchesOnly S w w1" and "b \<in> S" and "fst ref = build_actionId b"
  shows "touchesOnly S w (logInfo ref message meta w1)"
  unfolding logInfo_def log_def
  by (rule touchesOnly_updateStep [OF assms]) simp

lemma touchesOnly_complete:
  assumes "complete ref status now w1 = (r, w2)"
    and "touchesOnly S w w1" and "b \<in> S" and "fst ref = build_actionId b"
  shows "touchesOnly S w w2"
proof (cases "map_option step_status (lookupStep w1 ref) = Some StepRunning")
  case True
  from complete_running [OF True] assms(1)
  have "w2 = updateStep ref (\<lambda>s. s \<lparr> step_status := status, step_completedAt := Some now \<rparr>) w1"
    by simp
  then show ?thesis
    using touchesOnly_updateStep [OF assms(2,3,4)] by simp
next
  case False
  from complete_not_running [OF False] assms(1) have "w2 = w1"
    by simp
  with assms(2) show ?thesis
    by simp
qed

lemma touchesOnly_updateBuild:
  assumes "updateBuild (build_id b) f w1 = (r, w2)"
    and "touchesOnly S w w1" and "b \<in> S"
    and "\<And>x. build_id (f x) = build_id x \<and> build_actionId (f x) = build_actionId x \<and>
              build_action (f x) = build_action x"
  shows "touchesOnly S w w2"
proof (cases "findUnique w1 (build_id b)")
  case None
  with assms(1) have "w2 = w1"
    by (simp add: updateBuild_def)
  with assms(2) show ?thesis
    by simp
next
  case (Some row)
  let ?g = "\<lambda>x. if build_id x = build_id b then f x else x"
  from updateBuild_found [OF Some] assms(1)
  have w2: "w2 = w1 \<lparr> builds := map ?g (builds w1) \<rparr>"
    by simp
  have "rowLocal S ?g"
    unfolding rowLocal_def using assms(3,4) by auto
  then have "touchesOnly S w1 w2"
    unfolding touchesOnly_def w2 by (intro exI [of _ ?g]) simp
  with assms(2) show ?thesis
    by (rule touchesOnly_trans)
qed

lemma touchesOnly_handle:
  assumes "handleContainerBuilderResult env b ref result w1 = (r, w2)"
    and "touchesOnly S w w1" and "b \<in> S" and "fst ref = build_actionId b"
  shows "touchesOnly S w w2"
proof (cases "result_status result")
  case CbCompleted
  let ?w1 = "logInfo ref (LogText BUILD_DOCKER_IMAGE_STEP_FINISH_LOG)
               [(''images'', result_images result)] w1"
  have t1: "touchesOnly S w ?w1"
    by (rule touchesOnly_logInfo [OF assms(2,3,4)])
  obtain rc wc where c: "complete ref StepSuccess (env_now env) ?w1 = (rc, wc)"
    by (cases "complete ref StepSuccess (env_now env) ?w1")
  have tc: "touchesOnly S w wc"
    by (rule touchesOnly_complete [OF c t1 assms(3,4)])
  obtain ru wu where u: "updateBuild (build_id b)
      (\<lambda>x. x \<lparr> build_images := result_images result \<rparr>) wc = (ru, wu)"
    by (cases "updateBuild (build_id b) (\<lambda>x. x \<lparr> build_images := result_images result \<rparr>) wc")
  have tu: "touchesOnly S w wu"
    by (rule touchesOnly_updateBuild [OF u tc assms(3)]) simp
  have "w2 = wc \<or> w2 = wu \<or> w2 = called (AutoDeployToSandbox (build_id b)) wu"
    using assms(1) CbCompleted c u
    by (auto simp: handleContainerBuilderResult_def split: sum.splits if_splits)
  then show ?thesis
    using tc tu touchesOnly_called [OF tu] by auto
next
  case CbFailed
  let ?w1 = "logInfo ref (LogText BUILD_DOCKER_IMAGE_STEP_FAILED_LOG) [] w1"
  have t1: "touchesOnly S w ?w1"
    by (rule touchesOnly_logInfo [OF assms(2,3,4)])
  have c: "complete ref StepFailed (env_now env) ?w1 = (r, w2)"
    using assms(1) CbFailed by (simp add: handleContainerBuilderResult_def)
  show ?thesis
    by (rule touchesOnly_complete [OF c t1 assms(3,4)])
next
  case CbRunning
  let ?w1 = "logInfo ref (LogText BUILD_DOCKER_IMAGE_STEP_RUNNING_LOG) [] w1"
  have t1: "touchesOnly S w ?w1"
    by (rule touchesOnly_logInfo [OF assms(2,3,4)])
  have u: "updateBuild (build_id b)
             (\<lambda>x. x \<lparr> build_containerStatusQuery :=
                         (case result_statusQuery result of
                            None \<Rightarrow> build_containerStatusQuery x
                          | Some statusQuery \<Rightarrow> Some statusQuery),
                       build_containerStatusUpdatedAt := Some (env_now env) \<rparr>) ?w1 = (r, w2)"
    using assms(1) CbRunning by (simp add: handleContainerBuilderResult_def)
  show ?thesis
    by (rule touchesOnly_updateBuild [OF u t1 assms(3)]) simp
qed

lemma complete_calls:
  assumes "complete ref status now w1 = (r, w2)"
  shows "calls w2 = calls w1"
  using assms by (auto simp: complete_def split: option.splits if_splits)

lemma updateBuild_calls:
  assumes "updateBuild i f w1 = (r, w2)"
  shows "calls w2 = calls w1"
  using assms by (auto simp: updateBuild_def split: option.splits)

lemma polledBuilds_append:
  "polledBuilds (xs @ ys) = polledBuilds xs @ polledBuilds ys"
  by (induction xs rule: polledBuilds.induct) simp_all

lemma handle_calls:
  assumes "handleContainerBuilderResult env b ref result w1 = (r, w2)"
  shows "\<exists>cs. calls w2 = calls w1 @ cs \<and> polledBuilds cs = []"
proof (cases "result_status result")
  case CbCompleted
  let ?w1 = "logInfo ref (LogText BUILD_DOCKER_IMAGE_STEP_FINISH_LOG)
               [(''images'', result_images result)] w1"
  obtain rc wc where c: "complete ref StepSuccess (env_now env) ?w1 = (rc, wc)"
    by (cases "complete ref StepSuccess (env_now env) ?w1")
  obtain ru wu where u: "updateBuild (build_id b)
      (\<lambda>x. x \<lparr> build_images := result_images result \<rparr>) wc = (ru, wu)"
    by (cases "updateBuild (build_id b) (\<lambda>x. x \<lparr> build_images := result_images result \<rparr>) wc")
  have kc: "calls wc = calls w1"
    using complete_calls [OF c] by simp
  have ku: "calls wu = calls w1"
    using updateBuild_calls [OF u] kc by simp
  have "w2 = wc \<or> w2 = wu \<or> w2 = called (AutoDeployToSandbox (build_id b)) wu"
    using assms CbCompleted c u
    by (auto simp: handleContainerBuilderResult_def split: sum.splits if_splits)
  then show ?thesis
    using kc ku by auto
next
  case CbFailed
  have "complete ref StepFailed (env_now env)
          (logInfo ref (LogText BUILD_DOCKER_IMAGE_STEP_FAILED_LOG) [] w1) = (r, w2)"
    using assms CbFailed by (simp add: handleContainerBuilderResult_def)
  from complete_calls [OF this] show ?thesis
    by simp
next
  case CbRunning
  have "updateBuild (build_id b)
          (\<lambda>x. x \<lparr> build_containerStatusQuery :=
                         (case result_statusQuery result of
                            None \<Rightarrow> build_containerStatusQuery x
                          | Some statusQuery \<Rightarrow> Some statusQuery),
                    build_containerStatusUpdatedAt := Some (env_now env) \<rparr>)
          (logInfo ref (LogText BUILD_DOCKER_IMAGE_STEP_RUNNING_LOG) [] w1) = (r, w2)"
    using assms CbRunning by (simp add: handleContainerBuilderResult_def)
  from updateBuild_calls [OF this] show ?thesis
    by simp
qed

text \<open>The \<open>try\<close> block of the loop's body, and what the \<open>catch\<close> block makes of it.\<close>

lemma pollBuild_unfold:
  assumes "findIndex (\<lambda>step. step_name step = BUILD_DOCKER_IMAGE_STEP_NAME)
             (action_steps (build_action b)) = Some i"
  shows "pollBuild env b w =
     (case (case env_getStatus env (build_containerStatusQuery b) of
              Inl error \<Rightarrow> (Inl error, called (GetStatus (build_id b)) w)
            | Inr result \<Rightarrow>
                handleContainerBuilderResult env b (build_actionId b, i) result
                  (called (GetStatus (build_id b)) w)) of
        (Inr u, w2) \<Rightarrow> (Inr (), w2)
      | (Inl error, w2) \<Rightarrow>
          complete (build_actionId b, i) StepFailed (env_now env)
            (logInfo (build_actionId b, i) (LogError error) [] w2))"
  using assms by (simp add: pollBuild_def Let_def)

lemma pollBuild_frame:
  assumes "pollBuild env b w = (r, w')" and "b \<in> S"
  shows "touchesOnly S w w' \<and> (\<exists>cs. calls w' = calls w @ cs \<and> polledBuilds cs = [build_id b])"
proof (cases "findIndex (\<lambda>step. step_name step = BUILD_DOCKER_IMAGE_STEP_NAME)
                (action_steps (build_action b))")
  case None
  then have "w' = called (GetStatus (build_id b)) w"
    using assms(1) by (simp add: pollBuild_def)
  then show ?thesis
    using touchesOnly_called [OF touchesOnly_refl] by simp
next
  case (Some i)
  let ?ref = "(build_actionId b, i)"
  let ?w1 = "called (GetStatus (build_id b)) w"
  have t1: "touchesOnly S w ?w1"
    by (rule touchesOnly_called [OF touchesOnly_refl])
  obtain rt wt where tried:
    "(case env_getStatus env (build_containerStatusQuery b) of
        Inl error \<Rightarrow> (Inl error, ?w1)
      | Inr result \<Rightarrow> handleContainerBuilderResult env b ?ref result ?w1) = (rt, wt)"
    by (cases "(case env_getStatus env (build_containerStatusQuery b) of
        Inl error \<Rightarrow> (Inl error, ?w1)
      | Inr result \<Rightarrow> handleContainerBuilderResult env b ?ref result ?w1)")
  have tt: "touchesOnly S w wt \<and> (\<exists>cs. calls wt = calls ?w1 @ cs \<and> polledBuilds cs = [])"
  proof (cases "env_getStatus env (build_containerStatusQuery b)")
    case (Inl e)
    with tried have "wt = ?w1"
      by simp
    with t1 show ?thesis
      by simp
  next
    case (Inr result)
    with tried have h: "handleContainerBuilderResult env b ?ref result ?w1 = (rt, wt)"
      by simp
    show ?thesis
      using touchesOnly_handle [OF h t1 assms(2)] handle_calls [OF h] by simp
  qed
  then obtain cs where cs: "calls wt = calls ?w1 @ cs" "polledBuilds cs = []"
    by auto
  show ?thesis
  proof (cases rt)
    case (Inr u)
    then have "w' = wt"
      using assms(1) tried unfolding pollBuild_unfold [OF Some] by simp
    then show ?thesis
      using tt cs by (simp add: polledBuilds_append)
  next
    case (Inl error)
    let ?w3 = "logInfo ?ref (LogError error) [] wt"
    have c: "complete ?ref StepFailed (env_now env) ?w3 = (r, w')"
      using assms(1) tried Inl unfolding pollBuild_unfold [OF Some] by simp
    have t3: "touchesOnly S w ?w3"
      using tt assms(2) by (intro touchesOnly_logInfo) auto
    have "touchesOnly S w w'"
      by (rule touchesOnly_complete [OF c t3 assms(2)]) simp
    moreover have "calls w' = calls wt"
      using complete_calls [OF c] by simp
    ultimately show ?thesis
      using cs by (simp add: polledBuilds_append)
  qed
qed

lemma findIndex_Some:
  assumes "findIndex P xs = Some i"
  shows "i < length xs \<and> P (xs ! i) \<and> find P xs = Some (xs ! i)"
  using assms
proof (induction xs arbitrary: i)
  case Nil
  then show ?case by simp
next
  case (Cons x xs)
  then show ?case
    by (cases "P x") auto
qed

lemma findIndex_step_names:
  assumes "map step_name xs = map step_name ys"
  shows "findIndex (\<lambda>s. step_name s = n) xs = findIndex (\<lambda>s. step_name s = n) ys"
  using assms
proof (induction xs arbitrary: ys)
  case Nil
  then show ?case by simp
next
  case (Cons x xs)
  then obtain y ys' where ys: "ys = y # ys'" "step_name x = step_name y"
    "map step_name xs = map step_name ys'"
    by (cases ys) auto
  with Cons.IH [OF ys(3)] show ?case
    by simp
qed

lemma find_distinct_key:
  assumes "distinct (map k xs)" and "x \<in> set xs"
  shows "find (\<lambda>y. k y = k x) xs = Some x"
  using assms by (induction xs) (auto simp: image_iff)

lemma findUnique_builds_map:
  assumes "builds w' = map g (builds w)" and "\<And>r. build_id (g r) = build_id r"
  shows "findUnique w' i = map_option g (findUnique w i)"
  using assms by (simp add: findUnique_def find_map_same_key)

lemma find_action_builds_map:
  assumes "builds w' = map g (builds w)" and "\<And>r. build_actionId (g r) = build_actionId r"
  shows "find (\<lambda>r. build_actionId r = a) (builds w') =
         map_option g (find (\<lambda>r. build_actionId r = a) (builds w))"
  using assms by (simp add: find_map_same_key)

lemma rowLocalD:
  assumes "rowLocal S g"
  shows "build_id (g r) = build_id r" and "build_actionId (g r) = build_actionId r"
    and "map step_name (action_steps (build_action (g r))) =
         map step_name (action_steps (build_action r))"
  using assms by (simp_all add: rowLocal_def)

lemma rowLocal_other:
  assumes "rowLocal S g"
    and "\<forall>b \<in> S. build_id r \<noteq> build_id b \<and> build_actionId r \<noteq> build_actionId b"
  shows "g r = r"
  using assms by (simp add: rowLocal_def)

lemma touched_row:
  assumes t: "touchesOnly S w w'"
    and row: "findUnique w (build_id b) = Some b"
    and act: "find (\<lambda>r. build_actionId r = build_actionId b) (builds w) = Some b"
    and idx: "findIndex (\<lambda>step. step_name step = BUILD_DOCKER_IMAGE_STEP_NAME)
                (action_steps (build_action b)) = Some i"
  shows "\<exists>r. findUnique w' (build_id b) = Some r \<and> build_actionId r = build_actionId b \<and>
             find (\<lambda>step. step_name step = BUILD_DOCKER_IMAGE_STEP_NAME)
               (action_steps (build_action r)) = lookupStep w' (build_actionId b, i)"
proof -
  obtain g where g: "rowLocal S g" "builds w' = map g (builds w)"
    using t by (auto simp: touchesOnly_def)
  have f: "findUnique w' (build_id b) = Some (g b)"
    using findUnique_builds_map [OF g(2) rowLocalD(1) [OF g(1)]] row by simp
  have a: "find (\<lambda>r. build_actionId r = build_actionId b) (builds w') = Some (g b)"
    using find_action_builds_map [OF g(2) rowLocalD(2) [OF g(1)]] act by simp
  have "findIndex (\<lambda>step. step_name step = BUILD_DOCKER_IMAGE_STEP_NAME)
          (action_steps (build_action (g b))) = Some i"
    using findIndex_step_names [OF rowLocalD(3) [OF g(1)]] idx by simp
  from findIndex_Some [OF this]
  have i: "i < length (action_steps (build_action (g b)))"
    and fd: "find (\<lambda>step. step_name step = BUILD_DOCKER_IMAGE_STEP_NAME)
               (action_steps (build_action (g b))) = Some (action_steps (build_action (g b)) ! i)"
    by simp_all
  have "lookupStep w' (build_actionId b, i) = Some (action_steps (build_action (g b)) ! i)"
    using a i by (simp add: lookupStep_def)
  with f fd rowLocalD(2) [OF g(1)] show ?thesis
    by simp
qed

lemma pollBuild_effect:
  assumes row: "findUnique w (build_id b) = Some b"
    and act: "find (\<lambda>r. build_actionId r = build_actionId b) (builds w) = Some b"
    and idx: "findIndex (\<lambda>step. step_name step = BUILD_DOCKER_IMAGE_STEP_NAME)
                (action_steps (build_action b)) = Some i"
    and running: "step_status (action_steps (build_action b) ! i) = StepRunning"
  shows "\<exists>w'. pollBuild env b w = (Inr (), w') \<and>
           (\<exists>s. lookupStep w' (build_actionId b, i) = Some s \<and> pollOutcome env b s)"
proof -
  let ?ref = "(build_actionId b, i)"
  let ?w1 = "called (GetStatus (build_id b)) w"
  let ?s0 = "action_steps (build_action b) ! i"
  have i: "i < length (action_steps (build_action b))"
    using findIndex_Some [OF idx] by simp
  have l1: "lookupStep ?w1 ?ref = Some ?s0"
    using act i by (simp add: lookupStep_def)
  have r1: "map_option step_status (lookupStep ?w1 ?ref) = Some StepRunning"
    using l1 running by simp
  have f1: "findUnique ?w1 (build_id b) = Some b"
    using row by simp
  show ?thesis
  proof (cases "env_getStatus env (build_containerStatusQuery b)")
    case (Inl error)
    let ?f1 = "\<lambda>s. s \<lparr> step_logs := step_logs s @
                [\<lparr> log_level = Info, log_message = LogError error, log_meta = [] \<rparr>] \<rparr>"
    let ?f2 = "\<lambda>s. s \<lparr> step_status := StepFailed, step_completedAt := Some (env_now env) \<rparr>"
    let ?w3 = "logInfo ?ref (LogError error) [] ?w1"
    let ?w4 = "updateStep ?ref ?f2 ?w3"
    have r3: "map_option step_status (lookupStep ?w3 ?ref) = Some StepRunning"
      using r1 by simp
    have c: "complete ?ref StepFailed (env_now env) ?w3 = (Inr (), ?w4)"
      by (rule complete_running [OF r3])
    have p: "pollBuild env b w = (Inr (), ?w4)"
      unfolding pollBuild_unfold [OF idx] using Inl c by simp
    have "lookupStep ?w3 ?ref = Some (?f1 ?s0)"
      using l1 by (simp add: logInfo_def log_def lookupStep_updateStep)
    then have l4: "lookupStep ?w4 ?ref = Some (?f2 (?f1 ?s0))"
      by (simp add: lookupStep_updateStep)
    have "pollOutcome env b (?f2 (?f1 ?s0))"
      using Inl by (simp add: pollOutcome_def image_iff)
    with p l4 show ?thesis
      by blast
  next
    case (Inr result)
    from handle_running_step [OF f1 r1, of env result]
    obtain w2 where h: "handleContainerBuilderResult env b ?ref result ?w1 = (Inr (), w2)"
      and st: "map_option step_status (lookupStep w2 ?ref) =
                 Some (case result_status result of
                         CbCompleted \<Rightarrow> StepSuccess
                       | CbFailed \<Rightarrow> StepFailed
                       | CbRunning \<Rightarrow> StepRunning)"
      by (cases "result_status result") auto
    have p: "pollBuild env b w = (Inr (), w2)"
      unfolding pollBuild_unfold [OF idx] using Inr h by simp
    obtain s where "lookupStep w2 ?ref = Some s"
      and "step_status s = (case result_status result of
                         CbCompleted \<Rightarrow> StepSuccess
                       | CbFailed \<Rightarrow> StepFailed
                       | CbRunning \<Rightarrow> StepRunning)"
      using st by auto
    then show ?thesis
      using p Inr by (auto simp: pollOutcome_def)
  qed
qed

lemma pollBuild_advances:
  assumes row: "findUnique w (build_id b) = Some b"
    and act: "find (\<lambda>r. build_actionId r = build_actionId b) (builds w) = Some b"
    and idx: "findIndex (\<lambda>step. step_name step = BUILD_DOCKER_IMAGE_STEP_NAME)
                (action_steps (build_action b)) = Some i"
    and running: "step_status (action_steps (build_action b) ! i) = StepRunning"
  shows "\<exists>w'. pollBuild env b w = (Inr (), w') \<and> advancedRow env b w'"
proof -
  from pollBuild_effect [OF assms, of env]
  obtain w' s where p: "pollBuild env b w = (Inr (), w')"
    and l: "lookupStep w' (build_actionId b, i) = Some s" and o: "pollOutcome env b s"
    by blast
  have t: "touchesOnly {b} w w'"
    using pollBuild_frame [OF p, of "{b}"] by simp
  from touched_row [OF t row act idx] l o have "advancedRow env b w'"
    unfolding advancedRow_def by auto
  with p show ?thesis
    by blast
qed

lemma advancedRow_kept:
  assumes "advancedRow env b w1" and "touchesOnly S w1 w2"
    and "\<forall>b' \<in> S. build_id b \<noteq> build_id b' \<and> build_actionId b \<noteq> build_actionId b'"
  shows "advancedRow env b w2"
proof -
  obtain r s where r: "findUnique w1 (build_id b) = Some r" "build_actionId r = build_actionId b"
    and s: "find (\<lambda>step. step_name step = BUILD_DOCKER_IMAGE_STEP_NAME)
              (action_steps (build_action r)) = Some s" "pollOutcome env b s"
    using assms(1) unfolding advancedRow_def by blast
  obtain g where g: "rowLocal S g" "builds w2 = map g (builds w1)"
    using assms(2) by (auto simp: touchesOnly_def)
  have "build_id r = build_id b"
    using r(1) by (rule findUnique_Some_id)
  then have "g r = r"
    using rowLocal_other [OF g(1), of r] assms(3) r(2) by simp
  then have "findUnique w2 (build_id b) = Some r"
    using findUnique_builds_map [OF g(2) rowLocalD(1) [OF g(1)]] r(1) by simp
  with r(2) s show ?thesis
    unfolding advancedRow_def by blast
qed

lemma distinct_keys_differ:
  assumes "distinct (map k xs)" and "x \<in> set xs" and "y \<in> set xs" and "x \<noteq> y"
  shows "k x \<noteq> k y"
  using assms by (auto simp: distinct_map inj_on_def)

lemma pollGroup_all:
  assumes "distinct (map build_id (builds w))"
    and "distinct (map build_actionId (builds w))"
    and "set bs \<subseteq> set (builds w)"
    and "distinct bs"
    and "\<forall>b \<in> set bs. \<exists>i.
           findIndex (\<lambda>step. step_name step = BUILD_DOCKER_IMAGE_STEP_NAME)
             (action_steps (build_action b)) = Some i \<and>
           step_status (action_steps (build_action b) ! i) = StepRunning"
  shows "\<exists>w' cs. pollGroup env bs w = (Inr (), w') \<and> touchesOnly (set bs) w w' \<and>
           (\<forall>b \<in> set bs. advancedRow env b w') \<and>
           calls w' = calls w @ cs \<and> polledBuilds cs = map build_id bs"
  using assms
proof (induction bs arbitrary: w)
  case Nil
  then show ?case
    by (simp add: touchesOnly_refl)
next
  case (Cons b bs)
  have bw: "b \<in> set (builds w)"
    using Cons.prems(3) by simp
  have row: "findUnique w (build_id b) = Some b"
    unfolding findUnique_def by (rule find_distinct_key [OF Cons.prems(1) bw])
  have act: "find (\<lambda>r. build_actionId r = build_actionId b) (builds w) = Some b"
    by (rule find_distinct_key [OF Cons.prems(2) bw])
  obtain i where idx: "findIndex (\<lambda>step. step_name step = BUILD_DOCKER_IMAGE_STEP_NAME)
                         (action_steps (build_action b)) = Some i"
    and running: "step_status (action_steps (build_action b) ! i) = StepRunning"
    using Cons.prems(5) by auto
  from pollBuild_advances [OF row act idx running, of env]
  obtain w1 where p1: "pollBuild env b w = (Inr (), w1)" and adv1: "advancedRow env b w1"
    by blast
  from pollBuild_frame [OF p1, of "{b}"]
  obtain cs1 where t1: "touchesOnly {b} w w1"
    and cs1: "calls w1 = calls w @ cs1" "polledBuilds cs1 = [build_id b]"
    by auto
  obtain g1 where g1: "rowLocal {b} g1" "builds w1 = map g1 (builds w)"
    using t1 by (auto simp: touchesOnly_def)
  have others: "build_id b' \<noteq> build_id b \<and> build_actionId b' \<noteq> build_actionId b"
    if "b' \<in> set bs" for b'
  proof -
    have "b' \<in> set (builds w)" "b' \<noteq> b"
      using that Cons.prems(3,4) by auto
    then show ?thesis
      using distinct_keys_differ [OF Cons.prems(1) _ bw] distinct_keys_differ [OF Cons.prems(2) _ bw]
      by blast
  qed
  have d1: "distinct (map build_id (builds w1))"
    using Cons.prems(1) by (simp add: g1(2) comp_def rowLocalD(1) [OF g1(1)])
  have a1: "distinct (map build_actionId (builds w1))"
    using Cons.prems(2) by (simp add: g1(2) comp_def rowLocalD(2) [OF g1(1)])
  have sub1: "set bs \<subseteq> set (builds w1)"
  proof
    fix b' assume b': "b' \<in> set bs"
    have "g1 b' = b'"
      using rowLocal_other [OF g1(1), of b'] others [OF b'] by simp
    moreover have "b' \<in> set (builds w)"
      using b' Cons.prems(3) by auto
    ultimately show "b' \<in> set (builds w1)"
      unfolding g1(2) by (metis image_eqI set_map)
  qed
  have dist: "distinct bs"
    using Cons.prems(4) by simp
  have cond: "\<forall>b \<in> set bs. \<exists>i.
           findIndex (\<lambda>step. step_name step = BUILD_DOCKER_IMAGE_STEP_NAME)
             (action_steps (build_action b)) = Some i \<and>
           step_status (action_steps (build_action b) ! i) = StepRunning"
    using Cons.prems(5) by simp
  from Cons.IH [OF d1 a1 sub1 dist cond]
  obtain w' cs2 where p2: "pollGroup env bs w1 = (Inr (), w')"
    and t2: "touchesOnly (set bs) w1 w'"
    and adv2: "\<forall>b \<in> set bs. advancedRow env b w'"
    and cs2: "calls w' = calls w1 @ cs2" "polledBuilds cs2 = map build_id bs"
    by blast
  have p: "pollGroup env (b # bs) w = (Inr (), w')"
    using p1 p2 by simp
  have t: "touchesOnly (set (b # bs)) w w'"
    by (rule touchesOnly_trans [OF touchesOnly_mono [OF _ t1] touchesOnly_mono [OF _ t2]]) auto
  have "advancedRow env b w'"
    by (rule advancedRow_kept [OF adv1 t2]) (use others in metis)
  with adv2 have adv: "\<forall>x \<in> set (b # bs). advancedRow env x w'"
    by simp
  have "calls w' = calls w @ (cs1 @ cs2)" "polledBuilds (cs1 @ cs2) = map build_id (b # bs)"
    using cs1 cs2 by (simp_all add: polledBuilds_append)
  with p t adv show ?case
    by blast
qed

lemma pollGroup_append:
  "pollGroup env (xs @ ys) w =
     (case pollGroup env xs w of
        (Inl e, w1) \<Rightarrow> (Inl e, w1)
      | (Inr u, w1) \<Rightarrow> pollGroup env ys w1)"
  by (induction xs arbitrary: w) (auto split: prod.splits sum.splits)

lemma pollGroups_concat:
  assumes "pollGroup env (concat (map snd groups)) w = (Inr (), w')"
  shows "pollGroups env groups w = (Inr (), w')"
  using assms
proof (induction groups arbitrary: w)
  case Nil
  then show ?case by simp
next
  case (Cons kg groups)
  obtain k g where kg: "kg = (k, g)"
    by (cases kg)
  from Cons.prems obtain w1 where g: "pollGroup env g w = (Inr (), w1)"
    and rest: "pollGroup env (concat (map snd groups)) w1 = (Inr (), w')"
    by (auto simp: kg pollGroup_append split: prod.splits sum.splits)
  from Cons.IH [OF rest] g show ?case
    by (simp add: kg)
qed

lemma groupBy_push_mset:
  "mset (concat (map snd (groupBy_push k x groups))) = mset (concat (map snd groups)) + {#x#}"
  by (induction groups) auto

lemma groupBy_fold_mset:
  "mset (concat (map snd (foldl (\<lambda>groups x. groupBy_push (f x) x groups) acc xs))) =
   mset (concat (map snd acc)) + mset xs"
  by (induction xs arbitrary: acc) (simp_all add: groupBy_push_mset)

lemma groupBy_mset:
  "mset (concat (map snd (groupBy xs f))) = mset xs"
  by (simp add: groupBy_def groupBy_fold_mset)

lemma objectEntries_mset:
  "mset (objectEntries properties) = mset properties"
proof -
  have "mset (filter (\<lambda>(key, v). arrayIndex key \<noteq> None) properties) +
        mset (filter (\<lambda>(key, v). arrayIndex key = None) properties) = mset properties"
    by (induction properties) auto
  then show ?thesis
    by (simp add: objectEntries_def)
qed

lemma mset_concat_snd:
  "mset (concat (map snd groups)) = (\<Sum>kg \<in># mset groups. mset (snd kg))"
  by (induction groups) simp_all

lemma objectEntries_concat_mset:
  "mset (concat (map snd (objectEntries groups))) = mset (concat (map snd groups))"
  unfolding mset_concat_snd objectEntries_mset ..

lemma first_named_step_running:
  assumes "list_ex (\<lambda>s. Q s \<and> P s) xs" and "length (filter P xs) \<le> 1"
  shows "\<exists>i. findIndex P xs = Some i \<and> Q (xs ! i)"
  using assms
proof (induction xs)
  case Nil
  then show ?case by simp
next
  case (Cons x xs)
  show ?case
  proof (cases "P x")
    case True
    with Cons.prems(2) have "filter P xs = []"
      by simp
    then have "\<forall>y \<in> set xs. \<not> P y"
      by (simp add: filter_empty_conv)
    with Cons.prems(1) have "Q x"
      by (auto simp: list_ex_iff)
    with True show ?thesis
      by simp
  next
    case False
    with Cons.prems have "list_ex (\<lambda>s. Q s \<and> P s) xs" "length (filter P xs) \<le> 1"
      by simp_all
    from Cons.IH [OF this] obtain i where "findIndex P xs = Some i" "Q (xs ! i)"
      by blast
    with False show ?thesis
      by simp
  qed
qed

text \<open>
  C6. In a store that is well formed, a sweep does not throw, whatever the container
  builder answers and for whichever builds its status cannot be fetched. Every selected
  build is polled exactly once. A build whose poll throws a transport error has the
  error logged to its step \<open>BUILD_DOCKER\<close>, and that step is Failed; every other
  selected build is advanced as its own result says: its step is Success for a Completed
  result, Failed for a Failed one, and stays Running otherwise.
\<close>

theorem poll_error_confined_to_its_build:
  assumes "wellFormed w"
  shows "\<exists>w'. updateRunningBuildsStatus env w = (Inr (), w') \<and>
     mset (polledBuilds (newCalls w w')) = mset (map build_id (findRunningBuilds env w)) \<and>
     (\<forall>b \<in> set (findRunningBuilds env w).
        \<exists>s. stepBuildDocker w' (build_id b) = Some s \<and>
          (case env_getStatus env (build_containerStatusQuery b) of
             Inl error \<Rightarrow>
               step_status s = StepFailed \<and> LogError error \<in> log_message ` set (step_logs s)
           | Inr result \<Rightarrow>
               step_status s =
                 (case result_status result of
                    CbCompleted \<Rightarrow> StepSuccess
                  | CbFailed \<Rightarrow> StepFailed
                  | CbRunning \<Rightarrow> StepRunning)))"
proof -
  let ?sel = "findRunningBuilds env w"
  let ?bs = "concat (map snd (objectEntries (groupBy ?sel build_appId)))"
  have d: "distinct (map build_id (builds w))" and a: "distinct (map build_actionId (builds w))"
    using assms by (simp_all add: wellFormed_def)
  have m: "mset ?bs = mset ?sel"
    unfolding objectEntries_concat_mset by (rule groupBy_mset)
  have sel_sub: "set ?sel \<subseteq> set (builds w)"
    by (auto simp: findRunningBuilds_def)
  have "distinct (builds w)"
    using d by (rule distinct_map [THEN iffD1, THEN conjunct1])
  then have "distinct ?sel"
    by (simp add: findRunningBuilds_def)
  then have dist: "distinct ?bs"
    using m by (metis distinct_count_atmost_1 set_mset_mset)
  have set_eq: "set ?bs = set ?sel"
    using m by (rule mset_eq_setD)
  have sub: "set ?bs \<subseteq> set (builds w)"
    using set_eq sel_sub by simp
  have cond: "\<forall>b \<in> set ?bs. \<exists>i.
           findIndex (\<lambda>step. step_name step = BUILD_DOCKER_IMAGE_STEP_NAME)
             (action_steps (build_action b)) = Some i \<and>
           step_status (action_steps (build_action b) ! i) = StepRunning"
  proof
    fix b assume "b \<in> set ?bs"
    then have b: "b \<in> set (builds w)" "hasRunningBuildDockerStep b"
      using set_eq by (auto simp: findRunningBuilds_def)
    have "length (filter (\<lambda>step. step_name step = BUILD_DOCKER_IMAGE_STEP_NAME)
                    (action_steps (build_action b))) \<le> 1"
      using assms b(1) by (simp add: wellFormed_def)
    with b(2) show "\<exists>i.
           findIndex (\<lambda>step. step_name step = BUILD_DOCKER_IMAGE_STEP_NAME)
             (action_steps (build_action b)) = Some i \<and>
           step_status (action_steps (build_action b) ! i) = StepRunning"
      unfolding hasRunningBuildDockerStep_def by (intro first_named_step_running) simp_all
  qed
  from pollGroup_all [OF d a sub dist cond, of env]
  obtain w' cs where p: "pollGroup env ?bs w = (Inr (), w')"
    and adv: "\<forall>b \<in> set ?bs. advancedRow env b w'"
    and cs: "calls w' = calls w @ cs" "polledBuilds cs = map build_id ?bs"
    by blast
  have u: "updateRunningBuildsStatus env w = (Inr (), w')"
    unfolding updateRunningBuildsStatus_def Let_def by (rule pollGroups_concat [OF p])
  have "newCalls w w' = cs"
    using cs(1) by (simp add: newCalls_def)
  then have polled: "mset (polledBuilds (newCalls w w')) = mset (map build_id ?sel)"
    using cs(2) m by (metis mset_map)
  have "\<exists>s. stepBuildDocker w' (build_id b) = Some s \<and> pollOutcome env b s"
    if "b \<in> set ?sel" for b
    using adv that set_eq unfolding advancedRow_def stepBuildDocker_def by force
  then show ?thesis
    using u polled unfolding pollOutcome_def by blast
qed

lemma world2_wellFormed: "wellFormed world2"
  by (simp add: wellFormed_def world2_def build3_def build4_def build5_def docker_build_def
      docker_step_def generated_step_def createInitialStepData_def
      BUILD_DOCKER_IMAGE_STEP_NAME_def GENERATE_STEP_NAME_def)

lemma world2_running: "findRunningBuilds env1 world2 = [build3, build5, build4]"
  by (simp add: findRunningBuilds_def hasRunningBuildDockerStep_def lastUpdateThreshold_def
      CONTAINER_STATUS_UPDATE_INTERVAL_SEC_def env1_def world2_def build3_def build4_def
      build5_def docker_build_def docker_step_def generated_step_def createInitialStepData_def
      BUILD_DOCKER_IMAGE_STEP_NAME_def GENERATE_STEP_NAME_def)

theorem poll_error_confined_to_its_build_witness:
  "wellFormed world2 \<and>
   fst (updateRunningBuildsStatus env1 world2) = Inr () \<and>
   env_getStatus env1 (build_containerStatusQuery build4) = Inl (ExternalError ''ECONNRESET'') \<and>
   map_option step_status
     (stepBuildDocker (snd (updateRunningBuildsStatus env1 world2)) (build_id build4)) =
     Some StepFailed \<and>
   map_option step_status
     (stepBuildDocker (snd (updateRunningBuildsStatus env1 world2)) (build_id build3)) =
     Some StepSuccess"
proof -
  have q4: "env_getStatus env1 (build_containerStatusQuery build4) =
              Inl (ExternalError ''ECONNRESET'')"
    by (simp add: env1_def build4_def docker_build_def)
  have q3: "env_getStatus env1 (build_containerStatusQuery build3) =
              Inr \<lparr> result_status = CbCompleted, result_images = [''img:v1''],
                    result_statusQuery = Some ''q-3'' \<rparr>"
    by (simp add: env1_def build3_def docker_build_def)
  from poll_error_confined_to_its_build [OF world2_wellFormed, of env1]
  obtain w' where u: "updateRunningBuildsStatus env1 world2 = (Inr (), w')"
    and each: "\<forall>b \<in> set (findRunningBuilds env1 world2).
        \<exists>s. stepBuildDocker w' (build_id b) = Some s \<and>
          (case env_getStatus env1 (build_containerStatusQuery b) of
             Inl error \<Rightarrow>
               step_status s = StepFailed \<and> LogError error \<in> log_message ` set (step_logs s)
           | Inr result \<Rightarrow>
               step_status s =
                 (case result_status result of
                    CbCompleted \<Rightarrow> StepSuccess
                  | CbFailed \<Rightarrow> StepFailed
                  | CbRunning \<Rightarrow> StepRunning))"
    by blast
  have "build4 \<in> set (findRunningBuilds env1 world2)"
    unfolding world2_running by simp
  with each q4 have s4: "map_option step_status (stepBuildDocker w' (build_id build4)) =
      Some StepFailed"
    by force
  have "build3 \<in> set (findRunningBuilds env1 world2)"
    unfolding world2_running by simp
  with each q3 have s3: "map_option step_status (stepBuildDocker w' (build_id build3)) =
      Some StepSuccess"
    by force
  show ?thesis
    using world2_wellFormed q4 s4 s3 u by simp
qed

subsection \<open>The calls made while a Build is created\<close>


lemma appendStepOf_fields [simp]:
  "build_id (appendStepOf a s b) = build_id b"
  "build_actionId (appendStepOf a s b) = build_actionId b"
  by (simp_all add: appendStepOf_def)


lemma updateStep_actions [simp]:
  "map build_actionId (builds (updateStep ref f w)) = map build_actionId (builds w)"
  by (simp add: comp_def)

lemma logInfo_actions [simp]:
  "map build_actionId (builds (logInfo ref message meta w)) = map build_actionId (builds w)"
  by (simp add: logInfo_def log_def)















subsection \<open>What has happened when \<open>create\<close> returns\<close>

lemmas create_eval =
  create_def createBuildRecord_def env1_def args1_def world0_def app1_def commit1_def
  slice_def generate_def generateStep_def run_def beginStep_def appendStepOf_def Let_def
  getOrderedEntities_def orderBy_def item_entity_def user_entity_def save_def diskPut_def
  called_def getFileURL_def saveToGitHub_def pushToGitHubStep_def logInfo_def
  log_def updateStep_def updateStepOf_def complete_def lookupStep_def buildDockerImage_def
  buildDockerStep_def handleContainerBuilderResult_def updateBuild_def findUnique_def
  createInitialStepData_def GENERATE_STEP_NAME_def BUILD_DOCKER_IMAGE_STEP_NAME_def
  PUSH_TO_GITHUB_STEP_NAME_def









text \<open>
  With a code generator that throws, \<open>run\<close> marks the step of the generation Failed and
  swallows the error: \<open>create\<close> goes on to the Docker build, without a URL of a tarball,
  and returns the Build. Nothing has been written to the disk.
\<close>

lemma create_returns_after_failed_generation:
  "fst (create env_generator_down args1 False world0) = Inr new_build \<and>
   calls (snd (create env_generator_down args1 False world0)) =
     [CreateDataService ''b9'' [''e1'', ''e3''], ContainerBuild ''b9''] \<and>
   disk (snd (create env_generator_down args1 False world0)) = Map.empty \<and>
   stepStatuses (snd (create env_generator_down args1 False world0)) ''b9'' =
     Some [(''ADD_TO_QUEUE'', StepSuccess), (GENERATE_STEP_NAME, StepFailed),
           (BUILD_DOCKER_IMAGE_STEP_NAME, StepFailed)]"
  by (simp add: create_eval env_generator_down_def new_build_def stepStatuses_def)



end
